theory Spec2Isabelle
  imports Main "HOL-Library.Log_Nat" "HOL-Library.Multiset"
begin

section \<open>ECMAScript numbers\<close>

text \<open>
  Every number of the source is an ECMAScript Number, an IEEE 754 binary64 value. A value
  is \<open>NaN\<close>, an infinity, or a finite double, kept as the rational it denotes. The two
  zeros are one value here: the source never divides by a zero and never inspects the sign
  of a zero, so no operation it performs tells them apart.

  Addition, subtraction and multiplication compute the exact rational result and round it
  to the nearest double, ties to the even significand (\<open>round64\<close>): \<open>ilog2\<close> is the binary
  exponent of a positive rational, the unit in the last place has exponent
  \<open>max (e - 52) (- 1074)\<close> (53 significant bits, subnormal below \<open>2 powi (- 1022)\<close>), and a
  rounded magnitude of \<open>2 powi 1024\<close> or more overflows to an infinity.
\<close>

datatype jsnum = NaN | PInf | NInf | Fin rat

definition ilog2 :: "rat \<Rightarrow> int" where
  "ilog2 r = (case quotient_of r of (a, b) \<Rightarrow>
     (let d = bitlen a - bitlen b in if 2 powi d \<le> r then d else d - 1))"

definition rne :: "rat \<Rightarrow> int" where
  "rne x = (let f = \<lfloor>x\<rfloor>; d = x - of_int f in
     if d < 1 / 2 then f else if 1 / 2 < d then f + 1 else if even f then f else f + 1)"

definition round64 :: "rat \<Rightarrow> jsnum" where
  "round64 r = (if r = 0 then Fin 0 else
     (let q = max (ilog2 \<bar>r\<bar> - 52) (- 1074);
          v = of_int (rne (r / 2 powi q)) * 2 powi q
      in if 2 powi 1024 \<le> \<bar>v\<bar> then (if 0 < r then PInf else NInf) else Fin v))"

text \<open>\<open>a + b\<close> on Numbers.\<close>

fun js_add :: "jsnum \<Rightarrow> jsnum \<Rightarrow> jsnum" where
  "js_add NaN _ = NaN"
| "js_add _ NaN = NaN"
| "js_add PInf NInf = NaN"
| "js_add NInf PInf = NaN"
| "js_add PInf _ = PInf"
| "js_add _ PInf = PInf"
| "js_add NInf _ = NInf"
| "js_add _ NInf = NInf"
| "js_add (Fin a) (Fin b) = round64 (a + b)"

text \<open>Unary \<open>- a\<close>.\<close>

fun js_neg :: "jsnum \<Rightarrow> jsnum" where
  "js_neg NaN = NaN"
| "js_neg PInf = NInf"
| "js_neg NInf = PInf"
| "js_neg (Fin a) = Fin (- a)"

text \<open>\<open>a - b\<close>: in IEEE 754 arithmetic the difference is the sum with the negated operand.\<close>

definition js_sub :: "jsnum \<Rightarrow> jsnum \<Rightarrow> jsnum" where
  "js_sub a b = js_add a (js_neg b)"

text \<open>\<open>a * b\<close> on Numbers.\<close>

fun js_mul :: "jsnum \<Rightarrow> jsnum \<Rightarrow> jsnum" where
  "js_mul NaN _ = NaN"
| "js_mul _ NaN = NaN"
| "js_mul (Fin a) (Fin b) = round64 (a * b)"
| "js_mul (Fin a) PInf = (if a = 0 then NaN else if 0 < a then PInf else NInf)"
| "js_mul (Fin a) NInf = (if a = 0 then NaN else if 0 < a then NInf else PInf)"
| "js_mul PInf (Fin b) = (if b = 0 then NaN else if 0 < b then PInf else NInf)"
| "js_mul NInf (Fin b) = (if b = 0 then NaN else if 0 < b then NInf else PInf)"
| "js_mul PInf PInf = PInf"
| "js_mul PInf NInf = NInf"
| "js_mul NInf PInf = NInf"
| "js_mul NInf NInf = PInf"

text \<open>\<open>a <= b\<close> and \<open>a >= b\<close>: false as soon as an operand is \<open>NaN\<close>.\<close>

fun js_le :: "jsnum \<Rightarrow> jsnum \<Rightarrow> bool" where
  "js_le NaN _ = False"
| "js_le _ NaN = False"
| "js_le NInf _ = True"
| "js_le _ PInf = True"
| "js_le PInf _ = False"
| "js_le _ NInf = False"
| "js_le (Fin a) (Fin b) = (a \<le> b)"

definition js_ge :: "jsnum \<Rightarrow> jsnum \<Rightarrow> bool" where
  "js_ge a b = js_le b a"

text \<open>Truthiness of a Number, as \<open>||\<close> and \<open>!\<close> test it: every Number but zero and \<open>NaN\<close>.\<close>

fun truthy :: "jsnum \<Rightarrow> bool" where
  "truthy NaN = False"
| "truthy (Fin a) = (a \<noteq> 0)"
| "truthy _ = True"

text \<open>A decimal literal of the source denotes the double nearest to it.\<close>

definition js_lit :: "rat \<Rightarrow> jsnum" where
  "js_lit r = round64 r"

text \<open>The finite doubles are the rationals that rounding leaves alone.\<close>

definition is_double :: "rat \<Rightarrow> bool" where
  "is_double r = (round64 r = Fin r)"

section \<open>Elements and layouts\<close>

text \<open>
  \<^verbatim>\<open>element.js\<close>, \<^verbatim>\<open>linear-layout.js\<close> and \<^verbatim>\<open>element-view.js\<close> are not among the sources; the
  fields below are the ones the sources read and write on an element.

  \<open>style.align\<close> and \<open>style.position\<close> are strings switched on by \<^verbatim>\<open>VerticalLayout.refresh\<close>:
  \<open>AlignOther\<close> and \<open>PosLeft\<close> stand for every value no \<^verbatim>\<open>case\<close> of the switch names
  (\<^verbatim>\<open>'left'\<close>, \<^verbatim>\<open>undefined\<close>, ...).
\<close>

datatype align = AlignTop | AlignCenter | AlignBottom | AlignOther

datatype hposition = PosLeft | PosRight | PosCenter

record box =
  b_top :: jsnum
  b_bottom :: jsnum
  b_left :: jsnum
  b_right :: jsnum

text \<open>\<open>style\<close>: the declared layout hints the sources read.\<close>

record styles =
  s_height :: jsnum
  s_align :: align
  s_position :: hposition

text \<open>\<open>_dimensions\<close>: the computed dimensions, resolved by an element's own \<^verbatim>\<open>refresh\<close>.\<close>

record dims =
  d_width :: jsnum
  d_height :: jsnum
  d_halfW :: jsnum
  d_margin :: box
  d_padding :: box

text \<open>
  The fields of one element. \<open>group_id\<close> names the element's \<^verbatim>\<open>THREE.Group\<close> and
  \<open>group_parent\<close> the group it is attached under (\<^verbatim>\<open>group.parent\<close>); \<open>pos_x\<close>, \<open>pos_y\<close> are
  \<^verbatim>\<open>group.position\<close>; \<open>visible\<close> is what \<^verbatim>\<open>setVisible\<close> sets; \<open>onHoverEnter\<close>, \<open>onHoverExit\<close> tell
  whether the callback is set. Every element has a \<open>data\<close> object: \<open>data_id\<close> is its \<open>id\<close>, \<open>None\<close>
  while it is \<^verbatim>\<open>undefined\<close>.
\<close>

record node =
  data_id :: "string option"
  style :: styles
  dimensions :: dims
  parentDimensions :: "(jsnum \<times> jsnum) option"
  hover :: bool
  visible :: bool
  pos_x :: jsnum
  pos_y :: jsnum
  group_id :: nat
  group_parent :: "nat option"
  onHoverEnter :: bool
  onHoverExit :: bool

text \<open>
  An element is a view (no \<^verbatim>\<open>_elements\<close>) or a layout with its \<^verbatim>\<open>_elements\<close> in insertion order.
  \<^verbatim>\<open>VerticalLayout\<close> is the only layout among the sources. An element is a value here: a
  reference to an element inside a page is a path from the page (see \<open>target\<close> below).
\<close>

datatype element = View node | Layout node "element list"

fun node_of :: "element \<Rightarrow> node" where
  "node_of (View nd) = nd"
| "node_of (Layout nd cs) = nd"

fun map_node :: "(node \<Rightarrow> node) \<Rightarrow> element \<Rightarrow> element" where
  "map_node f (View nd) = View (f nd)"
| "map_node f (Layout nd cs) = Layout (f nd) cs"

fun elements :: "element \<Rightarrow> element list option" where
  "elements (View nd) = None"
| "elements (Layout nd cs) = Some cs"

fun is_layout :: "element \<Rightarrow> bool" where
  "is_layout (View nd) = False"
| "is_layout (Layout nd cs) = True"

text \<open>What a caller can pass where an element is expected.\<close>

datatype jsval = JUndefined | JNull | JElement element | JArray "jsval list" | JOther

text \<open>
  The errors the sources throw, one constructor for each \<^verbatim>\<open>throw\<close>; \<open>TypeError_native\<close> is the
  \<^verbatim>\<open>TypeError\<close> of the language for a property read or a method call on \<^verbatim>\<open>undefined\<close> or
  \<^verbatim>\<open>null\<close>.
\<close>

datatype error =
    TypeError_ctor_width
  | TypeError_ctor_height
  | TypeError_add_not_element
  | TypeError_addPage_not_element
  | TypeError_native
  | Error_template_not_layout
  | Error_target_not_layout
  | Error_layout_add_null
  | Error_layout_add_not_element
  | Error_enableMouse_no_camera
  | Error_enableMouse_camera
  | Error_addInput

text \<open>
  A call returns or throws; what it had mutated when it threw stays mutated, so both
  outcomes carry the state.
\<close>

datatype 's result = Ok 's | Throw error 's

text \<open>The calls of \<^verbatim>\<open>console.warn\<close>.\<close>

datatype warning = Warn_unrecognized_mode | Warn_layoutID_not_found "string option"
  | Warn_center_unsupported | Warn_setPressed_mouse

subsection \<open>\<^verbatim>\<open>AbstractLayout\<close>\<close>

text \<open>\<^verbatim>\<open>this.group.add( element.group )\<close>: the element's group gets this group as its parent.\<close>

definition group_add :: "node \<Rightarrow> element \<Rightarrow> element" where
  "group_add this element = map_node (\<lambda>n. n\<lparr>group_parent := Some (group_id this)\<rparr>) element"

text \<open>\<^verbatim>\<open>_addItem( element )\<close>, on a layout.\<close>

fun addItem :: "jsval \<Rightarrow> element \<Rightarrow> element result" where
  "addItem (JElement e) (Layout nd cs) = Ok (Layout nd (cs @ [group_add nd e]))"
| "addItem _ (Layout nd cs) = Throw Error_layout_add_not_element (Layout nd cs)"
| "addItem _ (View nd) = Throw TypeError_native (View nd)"

text \<open>\<^verbatim>\<open>for ( let elt of xs ) this._addItem( elt )\<close>: the first throw ends the loop.\<close>

fun addItems :: "jsval list \<Rightarrow> element \<Rightarrow> element result" where
  "addItems [] l = Ok l"
| "addItems (x # xs) l = (case addItem x l of Ok l' \<Rightarrow> addItems xs l' | Throw e l' \<Rightarrow> Throw e l')"

text \<open>
  \<^verbatim>\<open>add( element )\<close>, called with the argument list \<open>args\<close> (\<^verbatim>\<open>arguments\<close>); \<open>element\<close> is the first
  argument, \<^verbatim>\<open>undefined\<close> when there is none.
\<close>

definition layout_add :: "jsval list \<Rightarrow> element \<Rightarrow> element result" where
  "layout_add args l =
     (let element = (case args of [] \<Rightarrow> JUndefined | a # _ \<Rightarrow> a) in
      if element = JUndefined \<or> element = JNull then Throw Error_layout_add_null l
      else if length args > 0 then addItems args l
      else (case element of JArray xs \<Rightarrow> addItems xs l | _ \<Rightarrow> addItem element l))"

text \<open>\<^verbatim>\<open>forceExit()\<close>. A view has no \<^verbatim>\<open>forceExit\<close>: the guard \<^verbatim>\<open>if ( elt.forceExit )\<close> skips the call.\<close>

fun forceExit :: "element \<Rightarrow> element" where
  "forceExit (View nd) = View nd"
| "forceExit (Layout nd cs) =
     Layout nd (map (\<lambda>elt. map_node (\<lambda>n. n\<lparr>hover := False\<rparr>) (forceExit elt)) cs)"

datatype event = HoverEnter nat | HoverExit nat | ViewEvent nat

text \<open>\<^verbatim>\<open>_onHoverExitWrapper\<close>: the user's callback, when set, then \<^verbatim>\<open>forceExit\<close>.\<close>

definition onHoverExitWrapper :: "element \<Rightarrow> element \<times> event list" where
  "onHoverExitWrapper this =
     (forceExit this, if onHoverExit (node_of this) then [HoverExit (group_id (node_of this))] else [])"

text \<open>
  Modelled from the spec: \<^verbatim>\<open>Element._checkHover\<close> (\<^verbatim>\<open>element.js\<close> is not among the sources). The
  spec: the hover test runs against the container's own background region using the ray; if
  the ray misses, the container's hover-exit callback fires and the test answers "no hit".
  \<open>hit\<close> is the ray test of the rendering library: whether the ray meets the element's
  background. The element's own \<open>hover\<close> flag follows the test, and the hover-enter callback,
  when set, fires on a hit.
\<close>

definition checkHover :: "('r \<Rightarrow> node \<Rightarrow> bool) \<Rightarrow> 'r \<Rightarrow> element \<Rightarrow> bool \<times> element \<times> event list" where
  "checkHover hit raycaster this =
     (if hit raycaster (node_of this)
      then (True, map_node (\<lambda>n. n\<lparr>hover := True\<rparr>) this,
            if onHoverEnter (node_of this) then [HoverEnter (group_id (node_of this))] else [])
      else (case onHoverExitWrapper (map_node (\<lambda>n. n\<lparr>hover := False\<rparr>) this) of
              (this', evs) \<Rightarrow> (False, this', evs)))"

text \<open>
  \<^verbatim>\<open>_intersect( raycaster, state )\<close>. \<open>vi\<close> is \<^verbatim>\<open>_intersect\<close> of a view (\<^verbatim>\<open>element-view.js\<close> is
  not among the sources): from the ray and the press state, its answer, the view's new
  fields and the callbacks it fired. On a hit \<open>checkHover\<close> leaves \<^verbatim>\<open>_elements\<close> as they
  are (\<open>checkHover_hit_elements\<close>), so the loop runs over \<open>cs\<close>.
\<close>

fun intersect :: "('r \<Rightarrow> node \<Rightarrow> bool) \<Rightarrow> ('r \<Rightarrow> bool \<Rightarrow> node \<Rightarrow> bool \<times> node \<times> event list) \<Rightarrow>
    'r \<Rightarrow> bool \<Rightarrow> element \<Rightarrow> bool \<times> element \<times> event list"
  and intersect_elements :: "('r \<Rightarrow> node \<Rightarrow> bool) \<Rightarrow> ('r \<Rightarrow> bool \<Rightarrow> node \<Rightarrow> bool \<times> node \<times> event list) \<Rightarrow>
    'r \<Rightarrow> bool \<Rightarrow> element list \<Rightarrow> bool \<times> element list \<times> event list" where
  "intersect hit vi raycaster pressed (View nd) =
     (case vi raycaster pressed nd of (b, nd', evs) \<Rightarrow> (b, View nd', evs))"
| "intersect hit vi raycaster pressed (Layout nd cs) =
     (case checkHover hit raycaster (Layout nd cs) of
        (False, this', evs) \<Rightarrow> (False, this', evs)
      | (True, this', evs) \<Rightarrow>
          (case intersect_elements hit vi raycaster pressed cs of
             (b, cs', evs') \<Rightarrow> (True, Layout (node_of this') cs', evs @ evs')))"
| "intersect_elements hit vi raycaster pressed [] = (False, [], [])"
| "intersect_elements hit vi raycaster pressed (elt # rest) =
     (case intersect hit vi raycaster pressed elt of
        (True, elt', evs) \<Rightarrow> (True, elt' # rest, evs)
      | (False, elt', evs) \<Rightarrow>
          (case intersect_elements hit vi raycaster pressed rest of
             (b, rest', evs') \<Rightarrow> (b, elt' # rest', evs @ evs')))"

subsection \<open>\<^verbatim>\<open>VerticalLayout\<close>\<close>

text \<open>
  \<open>rf\<close> is the inherited \<^verbatim>\<open>refresh\<close> (\<^verbatim>\<open>super.refresh\<close> of a layout, \<^verbatim>\<open>refresh\<close> of a view), which is
  not among the sources: from the available width and height it resolves the element's own
  fields, \<open>_dimensions\<close> among them.

  \<open>place_vertical\<close> is the first \<^verbatim>\<open>switch\<close> of the loop body, on \<open>style.align\<close>, for a child that
  has been refreshed; \<open>offset\<close> is \<open>(offset.top, offset.bottom)\<close> and \<open>height\<close> the container's
  \<open>dimensions.height\<close>. \<open>place_horizontal\<close> is the second \<^verbatim>\<open>switch\<close>, on \<open>style.position\<close>.
\<close>

definition place_vertical :: "jsnum \<Rightarrow> jsnum \<times> jsnum \<Rightarrow> element \<Rightarrow> element \<times> (jsnum \<times> jsnum) \<times> warning list" where
  "place_vertical height offset elt =
     (let eltDim = dimensions (node_of elt) in
      case s_align (style (node_of elt)) of
        AlignTop \<Rightarrow>
          (let top1 = js_add (fst offset) (b_top (d_margin eltDim));
               elt' = map_node (\<lambda>n. n\<lparr>pos_y := js_neg top1\<rparr>) elt;
               top2 = js_add top1 (js_add (d_height eltDim) (b_bottom (d_margin eltDim)))
           in (elt', (top2, snd offset), []))
      | AlignCenter \<Rightarrow> (elt, offset, [Warn_center_unsupported])
      | AlignBottom \<Rightarrow>
          (let bottom1 = js_add (snd offset) (b_bottom (d_margin eltDim));
               elt' = map_node (\<lambda>n. n\<lparr>pos_y := js_add (js_sub bottom1 height) (d_height eltDim)\<rparr>) elt;
               bottom2 = js_add bottom1 (js_add (d_height eltDim) (b_top (d_margin eltDim)))
           in (elt', (fst offset, bottom2), []))
      | AlignOther \<Rightarrow> (elt, offset, []))"

definition place_horizontal :: "jsnum \<Rightarrow> element \<Rightarrow> element" where
  "place_horizontal maxWidthPerElt elt =
     (let eltDim = dimensions (node_of elt) in
      case s_position (style (node_of elt)) of
        PosRight \<Rightarrow> map_node (\<lambda>n. n\<lparr>pos_x := js_sub maxWidthPerElt (d_width eltDim)\<rparr>) elt
      | PosCenter \<Rightarrow>
          map_node (\<lambda>n. n\<lparr>pos_x := js_sub (js_mul maxWidthPerElt (Fin (1 / 2))) (d_halfW eltDim)\<rparr>) elt
      | PosLeft \<Rightarrow> elt)"

fun refresh :: "(jsnum \<Rightarrow> jsnum \<Rightarrow> node \<Rightarrow> node) \<Rightarrow> jsnum \<Rightarrow> jsnum \<Rightarrow> element \<Rightarrow> element \<times> warning list"
  and refresh_elements :: "(jsnum \<Rightarrow> jsnum \<Rightarrow> node \<Rightarrow> node) \<Rightarrow> jsnum \<Rightarrow> jsnum \<Rightarrow> jsnum \<Rightarrow>
    jsnum \<times> jsnum \<Rightarrow> element list \<Rightarrow> element list \<times> warning list" where
  "refresh rf maxEltWidth maxEltHeight (View nd) = (View (rf maxEltWidth maxEltHeight nd), [])"
| "refresh rf maxEltWidth maxEltHeight (Layout nd cs) =
     (let nd' = rf maxEltWidth maxEltHeight nd;
          padding = d_padding (dimensions nd');
          horizontalPad = js_add (b_right padding) (b_left padding);
          verticalPad = js_add (b_top padding) (b_bottom padding);
          maxWidthPerElt = js_sub (d_width (dimensions nd')) horizontalPad;
          maxHeightPerElt = js_sub (d_height (dimensions nd')) verticalPad
      in case refresh_elements rf maxWidthPerElt maxHeightPerElt (d_height (dimensions nd'))
                (b_top padding, b_bottom padding) cs of
           (cs', ws) \<Rightarrow> (Layout nd' cs', ws))"
| "refresh_elements rf maxWidthPerElt maxHeightPerElt height offset [] = ([], [])"
| "refresh_elements rf maxWidthPerElt maxHeightPerElt height offset (elt # rest) =
     (case refresh rf maxWidthPerElt maxHeightPerElt elt of
        (elt1, ws1) \<Rightarrow>
          (case place_vertical height offset elt1 of
             (elt2, offset', ws2) \<Rightarrow>
               (case refresh_elements rf maxWidthPerElt maxHeightPerElt height offset' rest of
                  (rest', ws3) \<Rightarrow> (place_horizontal maxWidthPerElt elt2 # rest', ws1 @ ws2 @ ws3))))"

text \<open>\<^verbatim>\<open>isFull()\<close>, a method of a vertical layout: the running sum starts at \<open>0.0\<close> and takes
  the children's \<open>style.height\<close> in insertion order.\<close>

fun isFull :: "element \<Rightarrow> bool" where
  "isFull (Layout nd cs) = js_ge (foldl js_add (Fin 0) (map (\<lambda>elt. s_height (style (node_of elt))) cs)) (Fin 1)"

section \<open>The controller \<^verbatim>\<open>VRUI\<close>\<close>

text \<open>
  \<open>pages\<close> holds the pages themselves; \<open>currPage\<close>, a reference to one of them, is its index
  in \<open>pages\<close> (pages are only ever appended), and \<open>None\<close> while it is \<^verbatim>\<open>undefined\<close>. \<open>pageId\<close> is
  \<^verbatim>\<open>_pageId\<close>, \<open>None\<close> while it is \<^verbatim>\<open>undefined\<close> or \<open>NaN\<close>. \<open>console\<close> collects the \<^verbatim>\<open>console.warn\<close>
  calls and \<open>fired\<close> the callbacks fired, oldest first. Cameras, renderers, matrices and
  groups of the rendering library are opaque handles.
\<close>

datatype ray = RayInit | RayFromCamera jsnum jsnum nat | RayFromMatrix nat

datatype update_fn = UpdateVR | UpdateMouse

record input_object =
  userData_vrui :: "bool option"
  matrixWorld :: nat

record controller =
  enabled :: bool
  data_width :: jsnum
  data_height :: jsnum
  mode_type :: nat
  mode_template :: "element option"
  inputObject :: "input_object option"
  pages :: "element list"
  pageGroup :: nat
  pageId :: "int option"
  currPage :: "nat option"
  raycaster :: ray
  controllerRotation :: "nat option"
  mouse_coords :: "jsnum \<times> jsnum"
  mouse_enabled :: bool
  mouse_camera :: "nat option"
  mouse_renderer :: "nat option"
  state_pressed :: bool
  forcePressed :: bool
  update_fn :: update_fn
  console :: "warning list"
  fired :: "event list"

definition AUTOMATIC_ADDING :: nat where
  "AUTOMATIC_ADDING = 0"

text \<open>
  Modelled from the spec: \<^verbatim>\<open>Element.setVisible\<close> (\<^verbatim>\<open>element.js\<close> is not among the sources); the
  spec gives every node a \<open>visible\<close> flag and a visibility toggle \<open>setVisible(bool)\<close>.
\<close>

definition setVisible :: "bool \<Rightarrow> element \<Rightarrow> element" where
  "setVisible b = map_node (\<lambda>n. n\<lparr>visible := b\<rparr>)"

text \<open>\<open>a || b\<close> where \<open>a\<close> is a Number or \<^verbatim>\<open>undefined\<close>.\<close>

fun num_or :: "jsnum option \<Rightarrow> jsnum \<Rightarrow> jsnum" where
  "num_or None d = d"
| "num_or (Some v) d = (if truthy v then v else d)"

text \<open>
  \<^verbatim>\<open>addPage( page, dimensions )\<close>. The argument \<open>dimensions\<close> is \<^verbatim>\<open>undefined\<close> (\<open>None\<close>) or an object whose
  \<open>width\<close> and \<open>height\<close> are Numbers or \<^verbatim>\<open>undefined\<close>.

  The entries of \<open>pages\<close> are objects of their own, and \<open>JElement p\<close> is an object that is none of
  them: a new page, a clone of the template. The call that passes an object which already is
  a page is \<open>addPage_again\<close> below.
\<close>

definition addPage :: "jsval \<Rightarrow> (jsnum option \<times> jsnum option) option \<Rightarrow> controller \<Rightarrow> controller result" where
  "addPage page dimensions_arg c =
     (let dim = (case dimensions_arg of None \<Rightarrow> (Some (data_width c), Some (data_height c)) | Some d \<Rightarrow> d);
          dim_width = num_or (fst dim) (data_width c);
          dim_height = num_or (snd dim) (data_height c)
      in case page of
           JElement p \<Rightarrow>
             (let p1 = map_node (\<lambda>n. n\<lparr>group_parent := Some (pageGroup c),
                                         parentDimensions := Some (dim_width, dim_height),
                                         pos_x := js_mul (js_neg dim_width) (Fin (1 / 2)),
                                         pos_y := js_mul dim_height (Fin (1 / 2))\<rparr>) p
              in if length (pages c @ [p1]) \<noteq> 1
                 then Ok (c\<lparr>pages := pages c @ [setVisible False p1]\<rparr>)
                 else Ok (c\<lparr>pages := pages c @ [setVisible True p1], pageId := Some 0, currPage := Some 0\<rparr>))
         | _ \<Rightarrow> Throw TypeError_addPage_not_element c)"

text \<open>
  \<^verbatim>\<open>addPage( page, dimensions )\<close> where \<open>page\<close> is the object that already is entry \<open>k\<close> of \<open>pages\<close>, as
  in \<^verbatim>\<open>ui.addPage( ui.pages[ k ] )\<close>; an index outside the array reads \<^verbatim>\<open>undefined\<close>, which is no
  element. The one object is pushed a second time and the fields are written on it, so
  entry \<open>k\<close> and the new last entry read the same afterwards. The state returned gives what
  every entry reads after the call; that its two entries are one object is not recorded in
  it, so no later call is followed from such a state.
\<close>

definition addPage_again :: "nat \<Rightarrow> (jsnum option \<times> jsnum option) option \<Rightarrow> controller \<Rightarrow> controller result" where
  "addPage_again k dimensions_arg c =
     (let dim = (case dimensions_arg of None \<Rightarrow> (Some (data_width c), Some (data_height c)) | Some d \<Rightarrow> d);
          dim_width = num_or (fst dim) (data_width c);
          dim_height = num_or (snd dim) (data_height c)
      in if k < length (pages c)
         then (let p1 = map_node (\<lambda>n. n\<lparr>group_parent := Some (pageGroup c),
                                            parentDimensions := Some (dim_width, dim_height),
                                            pos_x := js_mul (js_neg dim_width) (Fin (1 / 2)),
                                            pos_y := js_mul dim_height (Fin (1 / 2))\<rparr>) (pages c ! k)
               in if length (pages c @ [p1]) \<noteq> 1
                  then Ok (c\<lparr>pages := (pages c)[k := setVisible False p1] @ [setVisible False p1]\<rparr>)
                  else Ok (c\<lparr>pages := (pages c)[k := setVisible True p1] @ [setVisible True p1],
                            pageId := Some 0, currPage := Some 0\<rparr>))
         else Throw TypeError_addPage_not_element c)"

text \<open>\<open>a % n\<close> for an integer \<open>a\<close> and a length \<open>n\<close>: the remainder takes the sign of \<open>a\<close>, and
  \<open>a % 0\<close> is \<open>NaN\<close>.\<close>

definition js_rem :: "int \<Rightarrow> nat \<Rightarrow> int option" where
  "js_rem a n = (if n = 0 then None else Some (sgn a * (\<bar>a\<bar> mod int n)))"

text \<open>\<^verbatim>\<open>this.pages[ this._pageId ]\<close>: \<^verbatim>\<open>undefined\<close> unless the index is one of the array.\<close>

definition page_ref :: "controller \<Rightarrow> int option \<Rightarrow> nat option" where
  "page_ref c i = (case i of None \<Rightarrow> None
     | Some k \<Rightarrow> if 0 \<le> k \<and> nat k < length (pages c) then Some (nat k) else None)"

text \<open>\<^verbatim>\<open>this.currPage.setVisible( b )\<close>: a \<^verbatim>\<open>TypeError\<close> when \<open>currPage\<close> is \<^verbatim>\<open>undefined\<close>.\<close>

definition currPage_setVisible :: "bool \<Rightarrow> controller \<Rightarrow> controller result" where
  "currPage_setVisible b c = (case currPage c of
       None \<Rightarrow> Throw TypeError_native c
     | Some k \<Rightarrow> if k < length (pages c)
                 then Ok (c\<lparr>pages := (pages c)[k := setVisible b (pages c ! k)]\<rparr>)
                 else Throw TypeError_native c)"

definition then_do :: "'s result \<Rightarrow> ('s \<Rightarrow> 't result) \<Rightarrow> ('s \<Rightarrow> 't) \<Rightarrow> 't result" where
  "then_do r f g = (case r of Ok s \<Rightarrow> f s | Throw e s \<Rightarrow> Throw e (g s))"

definition nextPage :: "controller \<Rightarrow> controller result" where
  "nextPage c =
     (let c1 = c\<lparr>pageId := (case pageId c of None \<Rightarrow> None | Some i \<Rightarrow> js_rem (i + 1) (length (pages c)))\<rparr>
      in then_do (currPage_setVisible False c1)
           (\<lambda>c2. currPage_setVisible True (c2\<lparr>currPage := page_ref c2 (pageId c2)\<rparr>)) id)"

definition prevPage :: "controller \<Rightarrow> controller result" where
  "prevPage c =
     (let c0 = c\<lparr>pageId := (case pageId c of None \<Rightarrow> None | Some i \<Rightarrow> js_rem (i - 1) (length (pages c)))\<rparr>;
          c1 = c0\<lparr>pageId := (case pageId c0 of None \<Rightarrow> None
                      | Some i \<Rightarrow> if i < 0 then Some (int (length (pages c0)) - 1) else Some i)\<rparr>
      in then_do (currPage_setVisible False c1)
           (\<lambda>c2. currPage_setVisible True (c2\<lparr>currPage := page_ref c2 (pageId c2)\<rparr>)) id)"

subsection \<open>Automatic adding\<close>

text \<open>
  A reference to an element of the page tree is a \<open>target\<close>: the index of the page in
  \<open>pages\<close> and the path of child indices from the page down to the element.
\<close>

type_synonym target = "nat \<times> nat list"

fun get_at :: "nat list \<Rightarrow> element \<Rightarrow> element option" where
  "get_at [] e = Some e"
| "get_at (i # p) (View nd) = None"
| "get_at (i # p) (Layout nd cs) = (if i < length cs then get_at p (cs ! i) else None)"

definition deref :: "controller \<Rightarrow> target \<Rightarrow> element option" where
  "deref c t = (if fst t < length (pages c) then get_at (snd t) (pages c ! fst t) else None)"

text \<open>A method call on the element at a path: the element is replaced by what the call left.\<close>

fun apply_at :: "nat list \<Rightarrow> (element \<Rightarrow> element result) \<Rightarrow> element \<Rightarrow> element result" where
  "apply_at [] f e = f e"
| "apply_at (i # p) f (View nd) = Throw TypeError_native (View nd)"
| "apply_at (i # p) f (Layout nd cs) =
     (if i < length cs
      then (case apply_at p f (cs ! i) of
              Ok e' \<Rightarrow> Ok (Layout nd (cs[i := e']))
            | Throw er e' \<Rightarrow> Throw er (Layout nd (cs[i := e'])))
      else Throw TypeError_native (Layout nd cs))"

definition target_call :: "target \<Rightarrow> (element \<Rightarrow> element result) \<Rightarrow> controller \<Rightarrow> controller result" where
  "target_call t f c =
     (if fst t < length (pages c)
      then (case apply_at (snd t) f (pages c ! fst t) of
              Ok e' \<Rightarrow> Ok (c\<lparr>pages := (pages c)[fst t := e']\<rparr>)
            | Throw er e' \<Rightarrow> Throw er (c\<lparr>pages := (pages c)[fst t := e']\<rparr>))
      else Throw TypeError_native c)"

text \<open>The children of the element at path \<open>p\<close>, each with its own path.\<close>

fun children_at :: "nat list \<Rightarrow> element \<Rightarrow> (nat list \<times> element) list" where
  "children_at p (View nd) = []"
| "children_at p (Layout nd cs) = zip (map (\<lambda>i. p @ [i]) [0..<length cs]) cs"

text \<open>
  The loop of \<^verbatim>\<open>_visit( layout, callback )\<close>: \<open>visited\<close> is the queue, \<^verbatim>\<open>shift()\<close> takes its head,
  and the children of an element that is not the one looked for are pushed at the back.
\<close>

function visit_loop :: "(element \<Rightarrow> bool) \<Rightarrow> (nat list \<times> element) list \<Rightarrow> (nat list \<times> element) option" where
  "visit_loop callback [] = None"
| "visit_loop callback (x # visited) =
     (if callback (snd x) then Some x else visit_loop callback (visited @ children_at (fst x) (snd x)))"
  by pat_completeness auto
termination
proof (relation "measure (\<lambda>(callback, visited). sum_list (map (\<lambda>x. Suc (size (snd x))) visited))")
  show "wf (measure (\<lambda>(callback, visited). sum_list (map (\<lambda>x. Suc (size (snd x))) visited)))"
    by simp
next
  fix callback :: "element \<Rightarrow> bool" and x :: "nat list \<times> element" and visited
  have "sum_list (map (\<lambda>x. Suc (size (snd x))) (children_at p e)) \<le> size e" for p e
  proof (cases e)
    case (View nd)
    then show ?thesis by simp
  next
    case (Layout nd cs)
    have "map snd (zip (map (\<lambda>i. p @ [i]) [0..<length cs]) cs) = cs"
      by (simp add: map_snd_zip)
    then have "map (\<lambda>x. Suc (size (snd x))) (zip (map (\<lambda>i. p @ [i]) [0..<length cs]) cs)
               = map (\<lambda>c. Suc (size c)) cs"
      by (metis (no_types, lifting) map_map comp_def map_eq_conv)
    moreover have "sum_list (map (\<lambda>c. Suc (size c)) cs) = size_list size cs"
      by (induction cs) auto
    ultimately show ?thesis using Layout by simp
  qed
  from this[of "fst x" "snd x"]
  show "((callback, visited @ children_at (fst x) (snd x)), (callback, x # visited))
        \<in> measure (\<lambda>(callback, visited). sum_list (map (\<lambda>x. Suc (size (snd x))) visited))"
    by simp
qed

definition visit :: "element \<Rightarrow> (element \<Rightarrow> bool) \<Rightarrow> (nat list \<times> element) option" where
  "visit layout callback = (case elements layout of
       None \<Rightarrow> None
     | Some cs \<Rightarrow> visit_loop callback (children_at [] layout))"

text \<open>\<open>layoutID\<close> is a string or \<^verbatim>\<open>undefined\<close>; the empty string is falsy.\<close>

fun given :: "string option \<Rightarrow> bool" where
  "given None = False"
| "given (Some s) = (s \<noteq> [])"

text \<open>
  \<^verbatim>\<open>_addWithExpansion( element, layoutID )\<close>. \<open>clone\<close> is \<^verbatim>\<open>clone()\<close> of the template, whose
  definition is not among the sources. The local \<open>lastPage\<close> is a target or \<^verbatim>\<open>null\<close>.
\<close>

definition findLayout :: "string option \<Rightarrow> element \<Rightarrow> bool" where
  "findLayout layoutID elt = (data_id (node_of elt) = layoutID)"

definition visit_page :: "controller \<Rightarrow> nat \<Rightarrow> nat list \<Rightarrow> string option \<Rightarrow> target option" where
  "visit_page c i p layoutID = (case deref c (i, p) of
       None \<Rightarrow> None
     | Some e \<Rightarrow> (case visit e (findLayout layoutID) of
                   None \<Rightarrow> None
                 | Some (q, elt) \<Rightarrow> Some (i, p @ q)))"

definition addWithExpansion :: "(element \<Rightarrow> element) \<Rightarrow> element \<Rightarrow> string option \<Rightarrow> controller \<Rightarrow> controller result" where
  "addWithExpansion clone element layoutID c =
     (case mode_template c of
        None \<Rightarrow> Throw Error_template_not_layout c
      | Some template \<Rightarrow>
          if \<not> is_layout template then Throw Error_template_not_layout c
          else then_do (if pages c = [] then addPage (JElement (clone template)) None c else Ok c)
            (\<lambda>c1.
               let lastPage0 = Some (length (pages c1) - 1, []);
                   lastPage1 = (if given layoutID
                                then visit_page c1 (length (pages c1) - 1) [] layoutID
                                else lastPage0)
               in case (case lastPage1 of None \<Rightarrow> None | Some t \<Rightarrow> deref c1 t) of
                    None \<Rightarrow> Throw Error_target_not_layout c1
                  | Some (View nd) \<Rightarrow> Throw Error_target_not_layout c1
                  | Some (Layout nd cs) \<Rightarrow>
                      then_do (if isFull (Layout nd cs)
                               then addPage (JElement (clone template)) None c1 else Ok c1)
                        (\<lambda>c2.
                           let lastPage2 = (if isFull (Layout nd cs) \<and> given layoutID
                                            then visit_page c2 (length (pages c1)) [] layoutID
                                            else lastPage1)
                           in case lastPage2 of
                                None \<Rightarrow> Ok (c2\<lparr>console := console c2 @ [Warn_layoutID_not_found layoutID]\<rparr>)
                              | Some t \<Rightarrow> target_call t (layout_add [JElement element]) c2) id) id)"

text \<open>\<^verbatim>\<open>_add( element, layoutID )\<close>.\<close>

definition add1 :: "(element \<Rightarrow> element) \<Rightarrow> jsval \<Rightarrow> string option \<Rightarrow> controller \<Rightarrow> controller result" where
  "add1 clone element layoutID c =
     (case element of
        JElement e \<Rightarrow>
          if mode_type c = AUTOMATIC_ADDING then addWithExpansion clone e layoutID c
          else Ok (c\<lparr>console := console c @ [Warn_unrecognized_mode]\<rparr>)
      | _ \<Rightarrow> Throw TypeError_add_not_element c)"

fun add_each :: "(element \<Rightarrow> element) \<Rightarrow> jsval list \<Rightarrow> string option \<Rightarrow> controller \<Rightarrow> controller result" where
  "add_each clone [] layoutID c = Ok c"
| "add_each clone (elt # rest) layoutID c =
     then_do (add1 clone elt layoutID c) (add_each clone rest layoutID) id"

text \<open>\<^verbatim>\<open>add( element, layoutID )\<close>; reading \<^verbatim>\<open>element.constructor\<close> of \<^verbatim>\<open>undefined\<close> or \<^verbatim>\<open>null\<close> is a
  \<^verbatim>\<open>TypeError\<close>.\<close>

definition add :: "(element \<Rightarrow> element) \<Rightarrow> jsval \<Rightarrow> string option \<Rightarrow> controller \<Rightarrow> controller result" where
  "add clone element layoutID c =
     (case element of
        JArray elts \<Rightarrow> add_each clone elts layoutID c
      | JUndefined \<Rightarrow> Throw TypeError_native c
      | JNull \<Rightarrow> Throw TypeError_native c
      | _ \<Rightarrow> add1 clone element layoutID c)"

subsection \<open>Input\<close>

text \<open>\<^verbatim>\<open>this.currPage._intersect( this._raycaster, this._state )\<close>.\<close>

definition currPage_intersect :: "(ray \<Rightarrow> node \<Rightarrow> bool) \<Rightarrow> (ray \<Rightarrow> bool \<Rightarrow> node \<Rightarrow> bool \<times> node \<times> event list) \<Rightarrow>
    controller \<Rightarrow> (controller \<times> bool option) result" where
  "currPage_intersect hit vi c = (case currPage c of
       None \<Rightarrow> Throw TypeError_native (c, None)
     | Some k \<Rightarrow>
         if k < length (pages c)
         then (case intersect hit vi (raycaster c) (state_pressed c) (pages c ! k) of
                 (b, p', evs) \<Rightarrow> Ok (c\<lparr>pages := (pages c)[k := p'], fired := fired c @ evs\<rparr>, Some b))
         else Throw TypeError_native (c, None))"

text \<open>\<^verbatim>\<open>_updateVR()\<close>. \<open>userData_vrui\<close> is \<open>None\<close> when the input object has no \<^verbatim>\<open>userData.vrui\<close>.\<close>

definition updateVR :: "(ray \<Rightarrow> node \<Rightarrow> bool) \<Rightarrow> (ray \<Rightarrow> bool \<Rightarrow> node \<Rightarrow> bool \<times> node \<times> event list) \<Rightarrow>
    controller \<Rightarrow> (controller \<times> bool option) result" where
  "updateVR hit vi c = (case inputObject c of
       None \<Rightarrow> Ok (c, None)
     | Some obj \<Rightarrow> (case userData_vrui obj of
           None \<Rightarrow> Throw TypeError_native (c, None)
         | Some p \<Rightarrow> currPage_intersect hit vi
             (c\<lparr>state_pressed := p \<or> forcePressed c,
                controllerRotation := Some (matrixWorld obj),
                raycaster := RayFromMatrix (matrixWorld obj)\<rparr>)))"

text \<open>\<^verbatim>\<open>_updateMouse()\<close>.\<close>

definition updateMouse :: "(ray \<Rightarrow> node \<Rightarrow> bool) \<Rightarrow> (ray \<Rightarrow> bool \<Rightarrow> node \<Rightarrow> bool \<times> node \<times> event list) \<Rightarrow>
    controller \<Rightarrow> (controller \<times> bool option) result" where
  "updateMouse hit vi c = (case mouse_camera c of
       None \<Rightarrow> Throw TypeError_native (c, None)
     | Some cam \<Rightarrow> currPage_intersect hit vi
         (c\<lparr>raycaster := RayFromCamera (fst (mouse_coords c)) (snd (mouse_coords c)) cam\<rparr>))"

text \<open>\<^verbatim>\<open>update()\<close>: \<open>None\<close> is \<^verbatim>\<open>null\<close>.\<close>

definition update :: "(ray \<Rightarrow> node \<Rightarrow> bool) \<Rightarrow> (ray \<Rightarrow> bool \<Rightarrow> node \<Rightarrow> bool \<times> node \<times> event list) \<Rightarrow>
    controller \<Rightarrow> (controller \<times> bool option) result" where
  "update hit vi c =
     (if \<not> enabled c then Ok (c, None)
      else (case update_fn c of UpdateVR \<Rightarrow> updateVR hit vi c | UpdateMouse \<Rightarrow> updateMouse hit vi c))"

text \<open>\<^verbatim>\<open>disableMouse()\<close>; the listeners it removes from \<^verbatim>\<open>window\<close> are outside the controller.\<close>

definition disableMouse :: "controller \<Rightarrow> controller" where
  "disableMouse c = c\<lparr>mouse_enabled := False, update_fn := UpdateVR\<rparr>"

text \<open>
  \<^verbatim>\<open>enableMouse( camera, renderer )\<close>. The camera is \<open>None\<close> when it is falsy, else its handle and
  whether its constructor is \<^verbatim>\<open>THREE.Camera\<close> itself, which the source refuses. The listeners
  it adds to \<^verbatim>\<open>window\<close> are outside the controller.
\<close>

definition enableMouse :: "(nat \<times> bool) option \<Rightarrow> nat option \<Rightarrow> controller \<Rightarrow> controller result" where
  "enableMouse camera renderer c = (case camera of
       None \<Rightarrow> Throw Error_enableMouse_no_camera c
     | Some (cam, plain) \<Rightarrow>
         if plain then Throw Error_enableMouse_camera c
         else Ok (c\<lparr>mouse_camera := Some cam, mouse_renderer := renderer, mouse_enabled := True,
                   update_fn := UpdateMouse\<rparr>))"

text \<open>\<^verbatim>\<open>addInput( object )\<close>: \<open>None\<close> is an argument that is not a \<^verbatim>\<open>THREE.Object3D\<close>.\<close>

definition addInput :: "input_object option \<Rightarrow> controller \<Rightarrow> controller result" where
  "addInput object c = (case object of
       None \<Rightarrow> Throw Error_addInput c
     | Some obj \<Rightarrow> Ok (c\<lparr>inputObject := Some obj\<rparr>))"

text \<open>\<^verbatim>\<open>setPressed( trigger )\<close>.\<close>

definition setPressed :: "bool \<Rightarrow> controller \<Rightarrow> controller" where
  "setPressed trigger c =
     (if mouse_enabled c then c\<lparr>console := console c @ [Warn_setPressed_mouse]\<rparr>
      else c\<lparr>forcePressed := trigger\<rparr>)"

subsection \<open>Construction\<close>

text \<open>
  The state the constructor leaves, before it adds the root page: \<open>w\<close> and \<open>h\<close> are the
  checked \<open>data.width\<close> and \<open>data.height\<close>, \<open>ty\<close> and \<open>tmpl\<close> the mode it resolved, \<open>pg\<close> the new
  page group.
\<close>

definition init :: "jsnum \<Rightarrow> jsnum \<Rightarrow> nat \<Rightarrow> element option \<Rightarrow> nat \<Rightarrow> controller" where
  "init w h ty tmpl pg =
     \<lparr>enabled = True, data_width = w, data_height = h, mode_type = ty, mode_template = tmpl,
      inputObject = None, pages = [], pageGroup = pg, pageId = None, currPage = None,
      raycaster = RayInit, controllerRotation = None, mouse_coords = (Fin (- 1), Fin (- 1)),
      mouse_enabled = False, mouse_camera = None, mouse_renderer = None,
      state_pressed = False, forcePressed = False, update_fn = UpdateVR,
      console = [], fired = []\<rparr>"

text \<open>
  The constructor \<^verbatim>\<open>VRUI( data, root )\<close>: \<open>data.width\<close> and \<open>data.height\<close> are Numbers or
  \<^verbatim>\<open>undefined\<close>; \<open>data.mode\<close> is \<^verbatim>\<open>undefined\<close> or an object with a \<open>type\<close> and a \<open>template\<close>, each of
  which may be \<^verbatim>\<open>undefined\<close>. \<open>Inl\<close> is a throw: no controller exists then.
\<close>

record ctor_data =
  cd_width :: "jsnum option"
  cd_height :: "jsnum option"
  cd_mode :: "(nat option \<times> element option) option"

definition new_VRUI :: "(element \<Rightarrow> element) \<Rightarrow> nat \<Rightarrow> ctor_data \<Rightarrow> jsval \<Rightarrow> error + controller" where
  "new_VRUI clone pg data root_element =
     (case cd_width data of
        None \<Rightarrow> Inl TypeError_ctor_width
      | Some w \<Rightarrow>
          if \<not> truthy w \<or> js_le w (Fin 0) then Inl TypeError_ctor_width
          else (case cd_height data of
             None \<Rightarrow> Inl TypeError_ctor_height
           | Some h \<Rightarrow>
               if \<not> truthy h \<or> js_le h (Fin 0) then Inl TypeError_ctor_height
               else
                 (let ty = (case cd_mode data of
                              None \<Rightarrow> AUTOMATIC_ADDING
                            | Some (None, t) \<Rightarrow> AUTOMATIC_ADDING
                            | Some (Some n, t) \<Rightarrow> n);
                      template = (case cd_mode data of None \<Rightarrow> None | Some (n, t) \<Rightarrow> t);
                      c = init w h ty (if ty = AUTOMATIC_ADDING then map_option clone template else template) pg
                  in case root_element of
                       JUndefined \<Rightarrow> Inr c
                     | JNull \<Rightarrow> Inr c
                     | _ \<Rightarrow> (case addPage root_element None c of Ok c' \<Rightarrow> Inr c' | Throw e c' \<Rightarrow> Inl e))))"

section \<open>Notions the properties are stated with\<close>

text \<open>A sequence of \<^verbatim>\<open>nextPage()\<close> and \<^verbatim>\<open>prevPage()\<close> calls; a throw ends it.\<close>

datatype page_op = Next | Prev

fun turn :: "page_op list \<Rightarrow> controller \<Rightarrow> controller result" where
  "turn [] c = Ok c"
| "turn (Next # ops) c = then_do (nextPage c) (turn ops) id"
| "turn (Prev # ops) c = then_do (prevPage c) (turn ops) id"

text \<open>
  \<open>one_visible\<close>: \<open>_pageId\<close> is an index of \<open>pages\<close>, \<open>currPage\<close> is the page at that index, and that
  page is the one page that is visible.
\<close>

definition visibility :: "controller \<Rightarrow> bool list" where
  "visibility c = map (\<lambda>p. visible (node_of p)) (pages c)"

definition one_visible :: "controller \<Rightarrow> bool" where
  "one_visible c = (case pageId c of None \<Rightarrow> False
     | Some i \<Rightarrow> 0 \<le> i \<and> nat i < length (pages c) \<and> currPage c = Some (nat i) \<and>
         visibility c = map (\<lambda>k. k = nat i) [0..<length (pages c)])"

text \<open>\<open>flip i j\<close>: page \<open>i\<close> is hidden, then page \<open>j\<close> becomes the current page and is shown.\<close>

definition flip :: "nat \<Rightarrow> nat \<Rightarrow> controller \<Rightarrow> controller" where
  "flip i j c = c\<lparr>pageId := Some (int j), currPage := Some j,
     pages := ((pages c)[i := setVisible False (pages c ! i)])[j := setVisible True (((pages c)[i := setVisible False (pages c ! i)]) ! j)]\<rparr>"

definition count_visible :: "controller \<Rightarrow> nat" where
  "count_visible c = length (filter (\<lambda>p. visible (node_of p)) (pages c))"

text \<open>How many elements each page holds directly.\<close>

definition held :: "controller \<Rightarrow> nat option list" where
  "held c = map (\<lambda>p. map_option length (elements p)) (pages c)"

text \<open>Half of a Number: the double nearest to the exact half.\<close>

fun half :: "jsnum \<Rightarrow> jsnum" where
  "half (Fin v) = round64 (v / 2)"
| "half x = x"

text \<open>The width and height \<^verbatim>\<open>addPage\<close> is to give a page: the ones passed, the controller's
  own where none (or a falsy one) is passed.\<close>

fun page_width :: "(jsnum option \<times> jsnum option) option \<Rightarrow> controller \<Rightarrow> jsnum" where
  "page_width None c = data_width c"
| "page_width (Some (w, h)) c = num_or w (data_width c)"

fun page_height :: "(jsnum option \<times> jsnum option) option \<Rightarrow> controller \<Rightarrow> jsnum" where
  "page_height None c = data_height c"
| "page_height (Some (w, h)) c = num_or h (data_height c)"

text \<open>
  The page \<open>p\<close> as \<^verbatim>\<open>addPage\<close> is to leave it: attached under the page group, with the dimensions
  of the page, moved to \<open>x = - width / 2\<close> and \<open>y = height / 2\<close>, shown (\<open>b\<close>) or hidden; its
  other fields and its children are the ones of \<open>p\<close>.
\<close>

definition as_page :: "(jsnum option \<times> jsnum option) option \<Rightarrow> controller \<Rightarrow> bool \<Rightarrow> element \<Rightarrow> element" where
  "as_page d c b p = map_node (\<lambda>n. n\<lparr>group_parent := Some (pageGroup c),
     parentDimensions := Some (page_width d c, page_height d c),
     pos_x := js_neg (half (page_width d c)), pos_y := half (page_height d c),
     visible := b\<rparr>) p"

text \<open>The proper descendants of an element: its children, their children, and so on.\<close>

fun descendants :: "element \<Rightarrow> element list" where
  "descendants (View nd) = []"
| "descendants (Layout nd cs) = concat (map (\<lambda>c. c # descendants c) cs)"

text \<open>How many children the loop of \<^verbatim>\<open>_intersect\<close> tests: up to and with the first one hit.\<close>

definition tested :: "('r \<Rightarrow> node \<Rightarrow> bool) \<Rightarrow> ('r \<Rightarrow> bool \<Rightarrow> node \<Rightarrow> bool \<times> node \<times> event list) \<Rightarrow>
    'r \<Rightarrow> bool \<Rightarrow> element list \<Rightarrow> nat" where
  "tested hit vi r pressed cs =
     min (length cs) (Suc (length (takeWhile (\<lambda>c. \<not> fst (intersect hit vi r pressed c)) cs)))"

text \<open>
  The fields of the element at path \<open>p\<close> of a tree (the path of child indices from its root)
  and whether that element is a layout; \<open>None\<close> where the tree has no element. A tree is known
  by what it has at every path.
\<close>

definition at_path :: "nat list \<Rightarrow> element \<Rightarrow> (node \<times> bool) option" where
  "at_path p e = map_option (\<lambda>d. (node_of d, is_layout d)) (get_at p e)"

text \<open>The fields of an element whose \<open>hover\<close> flag has been cleared.\<close>

definition unhovered :: "node \<times> bool \<Rightarrow> node \<times> bool" where
  "unhovered x = ((fst x)\<lparr>hover := False\<rparr>, snd x)"

text \<open>The \<^verbatim>\<open>_elements\<close> of an element, none for a view.\<close>

fun children :: "element \<Rightarrow> element list" where
  "children (View nd) = []"
| "children (Layout nd cs) = cs"

text \<open>
  The space a vertical layout leaves to each child, from the layout's own resolved fields:
  \<open>maxWidthPerElt\<close> and \<open>maxHeightPerElt\<close>.
\<close>

definition inner_width :: "node \<Rightarrow> jsnum" where
  "inner_width nd = js_sub (d_width (dimensions nd))
     (js_add (b_right (d_padding (dimensions nd))) (b_left (d_padding (dimensions nd))))"

definition inner_height :: "node \<Rightarrow> jsnum" where
  "inner_height nd = js_sub (d_height (dimensions nd))
     (js_add (b_top (d_padding (dimensions nd))) (b_bottom (d_padding (dimensions nd))))"

text \<open>The values a Number can hold: \<open>NaN\<close>, the infinities and the doubles.\<close>

fun is_number :: "jsnum \<Rightarrow> bool" where
  "is_number (Fin v) = is_double v"
| "is_number _ = True"

text \<open>
  The horizontal offset of a child in a layout of width \<open>w\<close>, from the child's refreshed
  \<open>style.position\<close>, width and half width; \<open>x\<close> is the offset a child keeps when it is placed
  neither \<open>right\<close> nor \<open>center\<close>.
\<close>

definition horizontal_offset :: "jsnum \<Rightarrow> jsnum \<Rightarrow> element \<Rightarrow> jsnum" where
  "horizontal_offset w x c =
     (case s_position (style (node_of c)) of
        PosRight \<Rightarrow> js_sub w (d_width (dimensions (node_of c)))
      | PosCenter \<Rightarrow> js_sub (js_mul w (Fin (1 / 2))) (d_halfW (dimensions (node_of c)))
      | PosLeft \<Rightarrow> x)"

text \<open>The declared heights of a list of children, in order.\<close>

definition heights :: "element list \<Rightarrow> jsnum list" where
  "heights cs = map (\<lambda>elt. s_height (style (node_of elt))) cs"

text \<open>The rational a finite Number denotes.\<close>

fun num_value :: "jsnum \<Rightarrow> rat" where
  "num_value (Fin v) = v"
| "num_value _ = 0"

text \<open>
  \<open>on_grid k h\<close>: the Number \<open>h\<close> is a non-negative multiple of \<open>2 powi k\<close>.
  \<open>exact_heights k hs\<close>: all of \<open>hs\<close> are, with a total below \<open>2 powi (k + 53)\<close>: summing them
  never needs more than 53 bits, so no addition rounds.
\<close>

fun on_grid :: "int \<Rightarrow> jsnum \<Rightarrow> bool" where
  "on_grid k (Fin v) = (0 \<le> v \<and> of_int \<lfloor>v / 2 powi k\<rfloor> = v / 2 powi k)"
| "on_grid k _ = False"

definition exact_heights :: "int \<Rightarrow> jsnum list \<Rightarrow> bool" where
  "exact_heights k hs = (list_all (on_grid k) hs \<and> sum_list (map num_value hs) < 2 powi (k + 53)
     \<and> - 1074 \<le> k \<and> k \<le> 970)"

text \<open>\<open>rnd r\<close>: \<open>r\<close> rounded to 53 significant bits, before the test for overflow.\<close>

definition rnd :: "rat \<Rightarrow> rat" where
  "rnd r = (let q = max (ilog2 \<bar>r\<bar> - 52) (- 1074) in of_int (rne (r / 2 powi q)) * 2 powi q)"

text \<open>\<open>nonneg_num\<close>: a non-negative double or \<open>+Infinity\<close>.\<close>

fun nonneg_num :: "jsnum \<Rightarrow> bool" where
  "nonneg_num (Fin v) = (0 \<le> v \<and> is_double v)"
| "nonneg_num PInf = True"
| "nonneg_num _ = False"




section \<open>Example inputs\<close>

text \<open>The fields of an element nobody has touched: nothing declared, nothing computed.\<close>

definition zero_box :: box where
  "zero_box = \<lparr>b_top = Fin 0, b_bottom = Fin 0, b_left = Fin 0, b_right = Fin 0\<rparr>"

definition fresh :: node where
  "fresh = \<lparr>data_id = None,
     style = \<lparr>s_height = Fin 0, s_align = AlignOther, s_position = PosLeft\<rparr>,
     dimensions = \<lparr>d_width = Fin 0, d_height = Fin 0, d_halfW = Fin 0,
                   d_margin = zero_box, d_padding = zero_box\<rparr>,
     parentDimensions = None, hover = False, visible = True, pos_x = Fin 0, pos_y = Fin 0,
     group_id = 0, group_parent = None, onHoverEnter = False, onHoverExit = False\<rparr>"

text \<open>A view that declares the height \<open>h\<close>.\<close>

definition item :: "jsnum \<Rightarrow> element" where
  "item h = View (fresh\<lparr>style := (style fresh)\<lparr>s_height := h\<rparr>\<rparr>)"

text \<open>A controller in automatic mode whose template is an empty vertical layout, and no page.\<close>

definition empty_ui :: controller where
  "empty_ui = init (Fin (1 / 2)) (Fin (1 / 4)) AUTOMATIC_ADDING (Some (Layout fresh [])) 1"

text \<open>A controller in automatic mode with one empty page.\<close>

definition one_page :: controller where
  "one_page = empty_ui\<lparr>pages := [Layout fresh []], pageId := Some 0, currPage := Some 0\<rparr>"

text \<open>
  \<open>empty_ui\<close> after an empty layout has been added as its first page, and that state after the
  same page object has been added once more.
\<close>

definition first_ui :: controller where
  "first_ui = empty_ui\<lparr>pages := [as_page None empty_ui True (Layout fresh [])],
     pageId := Some 0, currPage := Some 0\<rparr>"

definition twice_ui :: controller where
  "twice_ui = first_ui\<lparr>pages := [as_page None empty_ui False (Layout fresh []),
     as_page None empty_ui False (Layout fresh [])]\<rparr>"

text \<open>A controller with two pages, the first one current and visible.\<close>

definition two_pages :: controller where
  "two_pages = empty_ui\<lparr>pages := [Layout fresh [], Layout (fresh\<lparr>visible := False\<rparr>) []],
     pageId := Some 0, currPage := Some 0\<rparr>"

text \<open>A layout with a hovered view and a nested layout that holds another hovered view.\<close>

definition hovered :: element where
  "hovered = Layout (fresh\<lparr>hover := True, onHoverExit := True, group_id := 7\<rparr>)
     [View (fresh\<lparr>hover := True\<rparr>), Layout fresh [View (fresh\<lparr>hover := True\<rparr>)]]"

text \<open>
  A view of width 1/2 that declares the position \<open>pos\<close> and stands at the horizontal offset
  \<open>x\<close>, and a vertical layout of width 1 and height 1, without padding, that holds \<open>cs\<close>.
\<close>

definition tile :: "hposition \<Rightarrow> jsnum \<Rightarrow> element" where
  "tile pos x = View (fresh\<lparr>pos_x := x, style := (style fresh)\<lparr>s_position := pos\<rparr>,
     dimensions := (dimensions fresh)\<lparr>d_width := Fin (1 / 2), d_halfW := Fin (1 / 4)\<rparr>\<rparr>)"

definition shelf :: "element list \<Rightarrow> element" where
  "shelf cs = Layout (fresh\<lparr>dimensions := (dimensions fresh)\<lparr>d_width := Fin 1, d_height := Fin 1\<rparr>\<rparr>) cs"



section \<open>Facts about rounding\<close>

lemma pow2_le_iff: "(2::rat) powi a \<le> 2 powi b \<longleftrightarrow> a \<le> b"
proof
  assume "(2::rat) powi a \<le> 2 powi b"
  show "a \<le> b"
  proof (rule ccontr)
    assume "\<not> a \<le> b"
    then have "b < a" by simp
    then have "(2::rat) powi b < 2 powi a" by (rule power_int_strict_increasing) simp
    with \<open>(2::rat) powi a \<le> 2 powi b\<close> show False by simp
  qed
next
  assume "a \<le> b"
  then show "(2::rat) powi a \<le> 2 powi b" by (rule power_int_increasing) simp
qed

lemma pow2_less_iff: "(2::rat) powi a < 2 powi b \<longleftrightarrow> a < b"
  using pow2_le_iff[of b a] by (auto simp add: not_le[symmetric])

lemma bitlen_powi_bounds:
  assumes "0 < a"
  shows "(2::rat) powi (bitlen a - 1) \<le> of_int a" and "of_int a < (2::rat) powi (bitlen a)"
proof -
  from assms have b1: "1 \<le> bitlen a" by (simp add: bitlen_alt_def)
  from bitlen_bounds[OF assms] have lo: "2 ^ nat (bitlen a - 1) \<le> a" and hi: "a < 2 ^ nat (bitlen a)"
    by simp_all
  have "(2::rat) powi (bitlen a - 1) = of_int (2 ^ nat (bitlen a - 1))"
    using b1 by (simp add: power_int_def)
  also have "\<dots> \<le> of_int a" using lo by (simp only: of_int_le_iff)
  finally show "(2::rat) powi (bitlen a - 1) \<le> of_int a" .
  have "(of_int a :: rat) < of_int (2 ^ nat (bitlen a))" using hi by (simp only: of_int_less_iff)
  also have "\<dots> = 2 powi (bitlen a)" using b1 by (simp add: power_int_def)
  finally show "of_int a < (2::rat) powi (bitlen a)" .
qed

lemma ilog2_bounds:
  assumes "0 < r"
  shows "2 powi (ilog2 r) \<le> r" and "r < 2 powi (ilog2 r + 1)"
proof -
  obtain a b where q: "quotient_of r = (a, b)" by force
  have bpos: "0 < b" using quotient_of_denom_pos[OF q] .
  have r: "r = of_int a / of_int b" using quotient_of_div[OF q] .
  have apos: "0 < a" using assms bpos unfolding r by (simp add: zero_less_divide_iff)
  define d where "d = bitlen a - bitlen b"
  note A = bitlen_powi_bounds[OF apos] and B = bitlen_powi_bounds[OF bpos]
  have bq: "0 < (of_int b :: rat)" using bpos by simp
  have up: "r < 2 powi (d + 1)"
  proof -
    have "r * of_int b = of_int a" unfolding r using bq by simp
    also have "\<dots> < 2 powi (bitlen a)" by (rule A(2))
    also have "\<dots> = 2 powi (d + 1) * 2 powi (bitlen b - 1)"
      by (simp add: d_def power_int_add[symmetric])
    also have "\<dots> \<le> 2 powi (d + 1) * of_int b"
      using B(1) by (simp add: mult_left_mono)
    finally show ?thesis using bq by simp
  qed
  have lo: "2 powi (d - 1) \<le> r"
  proof -
    have "(2::rat) powi (d - 1) * of_int b \<le> 2 powi (d - 1) * 2 powi (bitlen b)"
      using B(2) by (simp add: mult_left_mono)
    also have "\<dots> = 2 powi (bitlen a - 1)"
      by (simp add: d_def power_int_add[symmetric])
    also have "\<dots> \<le> of_int a" by (rule A(1))
    also have "\<dots> = r * of_int b" unfolding r using bq by simp
    finally show ?thesis using bq by simp
  qed
  have e: "ilog2 r = (if 2 powi d \<le> r then d else d - 1)"
    by (simp add: ilog2_def q d_def Let_def)
  show "2 powi (ilog2 r) \<le> r" using lo by (simp add: e)
  show "r < 2 powi (ilog2 r + 1)" using up by (auto simp add: e not_le)
qed

lemma ilog2_unique:
  assumes "2 powi e \<le> r" and "r < 2 powi (e + 1)"
  shows "ilog2 r = e"
proof -
  have "0 < (2::rat) powi e" by simp
  with assms have rpos: "0 < r" by linarith
  note B = ilog2_bounds[OF rpos]
  have "(2::rat) powi (ilog2 r) < 2 powi (e + 1)" using B(1) assms(2) by linarith
  then have 1: "ilog2 r < e + 1" by (simp add: pow2_less_iff)
  have "(2::rat) powi e < 2 powi (ilog2 r + 1)" using B(2) assms(1) by linarith
  then have 2: "e < ilog2 r + 1" by (simp add: pow2_less_iff)
  from 1 2 show ?thesis by simp
qed

lemma rne_near:
  assumes "\<bar>x - of_int n\<bar> < 1 / 2"
  shows "rne x = n"
proof (cases "of_int n \<le> x")
  case True
  then have "\<lfloor>x\<rfloor> = n" using assms by (intro floor_unique) auto
  then show ?thesis using assms True by (simp add: rne_def Let_def)
next
  case False
  then have f: "\<lfloor>x\<rfloor> = n - 1" using assms by (intro floor_unique) auto
  have "1 / 2 < x - of_int (n - 1)" using assms False by auto
  then show ?thesis using f by (simp add: rne_def Let_def)
qed

lemma rne_tie:
  assumes "x = of_int n + 1 / 2"
  shows "rne x = (if even n then n else n + 1)"
proof -
  have "\<lfloor>x\<rfloor> = n" using assms by (intro floor_unique) auto
  then show ?thesis using assms by (simp add: rne_def Let_def)
qed

lemma round64_near:
  assumes "2 powi e \<le> \<bar>r\<bar>" and "\<bar>r\<bar> < 2 powi (e + 1)"
    and "q = max (e - 52) (- 1074)"
    and "\<bar>r / 2 powi q - of_int n\<bar> < 1 / 2"
    and "\<bar>of_int n * 2 powi q\<bar> < (2::rat) powi 1024"
  shows "round64 r = Fin (of_int n * 2 powi q)"
proof -
  have p: "0 < (2::rat) powi e" by simp
  have "r \<noteq> 0"
  proof
    assume "r = 0"
    with assms(1) p show False by simp
  qed
  moreover have "ilog2 \<bar>r\<bar> = e" using assms(1,2) by (rule ilog2_unique)
  moreover have "rne (r / 2 powi q) = n" using assms(4) by (rule rne_near)
  ultimately show ?thesis using assms(3,5) by (simp add: round64_def Let_def not_le[symmetric])
qed

lemma rne_of_int [simp]: "rne (of_int n) = n"
  by (rule rne_near) simp

lemma round64_dyadic:
  assumes m: "\<bar>m\<bar> < 2 ^ 53" and k: "- 1074 \<le> k"
    and v: "\<bar>of_int m * 2 powi k\<bar> < (2::rat) powi 1024"
  shows "round64 (of_int m * 2 powi k) = Fin (of_int m * 2 powi k)"
proof (cases "m = 0")
  case True
  then show ?thesis by (simp add: round64_def)
next
  case False
  define r :: rat where "r = of_int m * 2 powi k"
  have rnz: "r \<noteq> 0" using False by (simp add: r_def)
  then have rpos: "0 < \<bar>r\<bar>" by simp
  define e where "e = ilog2 \<bar>r\<bar>"
  note B = ilog2_bounds[OF rpos, folded e_def]
  have "\<bar>r\<bar> = of_int \<bar>m\<bar> * 2 powi k" by (simp add: r_def abs_mult)
  also have "\<dots> < of_int (2 ^ 53) * 2 powi k"
    using m by (intro mult_strict_right_mono) (simp_all only: of_int_less_iff zero_less_power_int zero_less_numeral)
  also have "\<dots> = 2 powi (k + 53)" by (simp add: power_int_add)
  finally have "(2::rat) powi e < 2 powi (k + 53)" using B(1) by linarith
  then have "e < k + 53" by (simp add: pow2_less_iff)
  define q where "q = max (e - 52) (- 1074)"
  have qk: "q \<le> k" using \<open>e < k + 53\<close> k by (simp add: q_def)
  have "r / 2 powi q = of_int m * 2 powi (k - q)"
    by (simp add: r_def power_int_diff)
  also have "\<dots> = of_int (m * 2 ^ nat (k - q))"
    using qk by (simp add: power_int_def)
  finally have "rne (r / 2 powi q) = m * 2 ^ nat (k - q)" by (simp only: rne_of_int)
  then have "(of_int (rne (r / 2 powi q)) :: rat) = of_int m * 2 powi (k - q)"
    using qk by (simp add: power_int_def)
  then have "of_int (rne (r / 2 powi q)) * 2 powi q = of_int m * ((2::rat) powi (k - q) * 2 powi q)"
    by simp
  also have "\<dots> = r" by (simp add: r_def power_int_add[symmetric])
  finally have "of_int (rne (r / 2 powi q)) * 2 powi q = r" .
  then show ?thesis using rnz v
    by (simp add: round64_def Let_def e_def[symmetric] q_def[symmetric] r_def[symmetric] not_le[symmetric])
qed

lemma round64_int:
  assumes "\<bar>m\<bar> < 2 ^ 53"
  shows "round64 (of_int m) = Fin (of_int m)"
proof -
  have "\<bar>(of_int m :: rat)\<bar> < of_int (2 ^ 53)" using assms by (simp only: of_int_abs[symmetric] of_int_less_iff)
  also have "\<dots> < (2::rat) powi 1024" by simp
  finally show ?thesis using round64_dyadic[of m 0] assms by simp
qed

lemma round64_1 [simp]: "round64 1 = Fin 1"
  using round64_int[of 1] by simp

lemma round64_half [simp]: "round64 (1 / 2) = Fin (1 / 2)"
  using round64_dyadic[of 1 "- 1"] by simp

lemma rne_cases:
  fixes x :: rat
  obtains n where "\<bar>x - of_int n\<bar> < 1 / 2" | n where "x = of_int n + 1 / 2"
proof -
  let ?f = "\<lfloor>x\<rfloor>"
  have b: "of_int ?f \<le> x" "x < of_int ?f + 1" by linarith+
  consider "x - of_int ?f < 1 / 2" | "x - of_int ?f = 1 / 2" | "1 / 2 < x - of_int ?f" by linarith
  then show ?thesis
  proof cases
    case 1
    then have "\<bar>x - of_int ?f\<bar> < 1 / 2" using b by simp
    then show ?thesis by (rule that(1))
  next
    case 2
    then have "x = of_int ?f + 1 / 2" by simp
    then show ?thesis by (rule that(2))
  next
    case 3
    then have "\<bar>x - of_int (?f + 1)\<bar> < 1 / 2" using b by simp
    then show ?thesis by (rule that(1))
  qed
qed

lemma rne_minus: "rne (- x) = - rne x"
proof (cases x rule: rne_cases)
  case (1 n)
  then have "\<bar>- x - of_int (- n)\<bar> < 1 / 2" by (simp add: abs_minus_commute)
  then have "rne (- x) = - n" by (rule rne_near)
  moreover have "rne x = n" using 1 by (rule rne_near)
  ultimately show ?thesis by simp
next
  case (2 n)
  then have "- x = of_int (- (n + 1)) + 1 / 2" by simp
  then have "rne (- x) = (if even (- (n + 1)) then - (n + 1) else - (n + 1) + 1)" by (rule rne_tie)
  moreover have "rne x = (if even n then n else n + 1)" using 2 by (rule rne_tie)
  ultimately show ?thesis by auto
qed

lemma round64_minus: "round64 (- r) = js_neg (round64 r)"
  by (simp add: round64_def Let_def rne_minus abs_mult)

lemma round64_quarter [simp]: "round64 (1 / 4) = Fin (1 / 4)"
  using round64_dyadic[of 1 "- 2"] by simp

lemma round64_three_quarters [simp]: "round64 (3 / 4) = Fin (3 / 4)"
  using round64_dyadic[of 3 "- 2"] by simp

lemma round64_tie:
  assumes "2 powi e \<le> \<bar>r\<bar>" and "\<bar>r\<bar> < 2 powi (e + 1)"
    and "q = max (e - 52) (- 1074)"
    and "r / 2 powi q = of_int n + 1 / 2"
    and "m = (if even n then n else n + 1)"
    and "\<bar>of_int m * 2 powi q\<bar> < (2::rat) powi 1024"
  shows "round64 r = Fin (of_int m * 2 powi q)"
proof -
  have p: "0 < (2::rat) powi e" by simp
  have "r \<noteq> 0"
  proof
    assume "r = 0"
    with assms(1) p show False by simp
  qed
  moreover have "ilog2 \<bar>r\<bar> = e" using assms(1,2) by (rule ilog2_unique)
  moreover have "rne (r / 2 powi q) = m" using rne_tie[OF assms(4)] assms(5) by simp
  ultimately show ?thesis using assms(3,6) by (simp add: round64_def Let_def not_le[symmetric])
qed

lemma lit_7_10: "js_lit (7 / 10) = Fin (3152519739159347 / 4503599627370496)"
  unfolding js_lit_def
  using round64_near[where e = "- 1" and r = "7 / 10" and n = 6305039478318694, OF _ _ refl]
  by simp

lemma lit_1_5: "js_lit (1 / 5) = Fin (3602879701896397 / 18014398509481984)"
  unfolding js_lit_def
  using round64_near[where e = "- 3" and r = "1 / 5" and n = 7205759403792794, OF _ _ refl]
  by simp

lemma lit_1_10: "js_lit (1 / 10) = Fin (3602879701896397 / 36028797018963968)"
  unfolding js_lit_def
  using round64_near[where e = "- 4" and r = "1 / 10" and n = 7205759403792794, OF _ _ refl]
  by simp

subsection \<open>Rounding is monotone\<close>

lemma round64_rnd:
  "round64 r = (if r = 0 then Fin 0 else if 2 powi 1024 \<le> \<bar>rnd r\<bar> then (if 0 < r then PInf else NInf) else Fin (rnd r))"
  by (simp add: round64_def rnd_def Let_def)


lemma rne_0 [simp]: "rne 0 = 0"
  using rne_of_int[of 0] by simp












lemma round64_0 [simp]: "round64 0 = Fin 0"
  by (simp add: round64_def)

lemma round64_eighths [simp]:
  "round64 (1 / 8) = Fin (1 / 8)" "round64 (3 / 8) = Fin (3 / 8)" "round64 (5 / 8) = Fin (5 / 8)"
  "round64 (7 / 8) = Fin (7 / 8)" "round64 (9 / 8) = Fin (9 / 8)" "round64 (5 / 4) = Fin (5 / 4)"
  using round64_dyadic[of 1 "- 3"] round64_dyadic[of 3 "- 3"] round64_dyadic[of 5 "- 3"]
    round64_dyadic[of 7 "- 3"] round64_dyadic[of 9 "- 3"] round64_dyadic[of 5 "- 2"]
  by simp_all

text \<open>Halving a double of magnitude \<open>2 powi (- 1021)\<close> or more is exact.\<close>

lemma round64_halve:
  assumes d: "is_double v" and big: "2 powi (- 1021) \<le> \<bar>v\<bar>"
  shows "round64 (v / 2) = Fin (v / 2)"
proof -
  have p: "0 < (2::rat) powi (- 1021)" by simp
  have vnz: "v \<noteq> 0"
  proof
    assume "v = 0"
    with big p show False by simp
  qed
  then have vpos: "0 < \<bar>v\<bar>" by simp
  define e where "e = ilog2 \<bar>v\<bar>"
  note B = ilog2_bounds[OF vpos, folded e_def]
  have "(2::rat) powi (- 1021) < 2 powi (e + 1)" using big B(2) by linarith
  then have "- 1021 < e + 1" by (simp only: pow2_less_iff)
  then have elo: "- 1021 \<le> e" by simp
  then have q: "max (e - 52) (- 1074) = e - 52" by simp
  have h1: "2 powi (e - 1) \<le> \<bar>v\<bar> / 2"
  proof -
    have "(2::rat) powi (e - 1) = 2 powi e / 2" by (simp add: power_int_diff)
    then show ?thesis using B(1) by simp
  qed
  have h2: "\<bar>v\<bar> / 2 < 2 powi (e - 1 + 1)"
  proof -
    have "(2::rat) powi (e + 1) = 2 powi e * 2" by (simp add: power_int_add)
    then show ?thesis using B(2) by simp
  qed
  have e': "ilog2 (\<bar>v\<bar> / 2) = e - 1" using h1 h2 by (rule ilog2_unique)
  have q': "max (ilog2 (\<bar>v\<bar> / 2) - 52) (- 1074) = e - 53" using elo by (simp add: e')
  have s: "(v / 2) / 2 powi (e - 53) = v / 2 powi (e - 52)"
  proof -
    have "(2::rat) powi (e - 52) = 2 powi (e - 53) * 2"
      using power_int_add[of "2::rat" "e - 53" 1] by simp
    then show ?thesis by simp
  qed
  from d vnz have v: "of_int (rne (v / 2 powi (e - 52))) * 2 powi (e - 52) = v"
    and nov: "\<not> 2 powi 1024 \<le> \<bar>v\<bar>"
    by (auto simp add: is_double_def round64_def Let_def q e_def[symmetric] split: if_splits)
  have x: "of_int (rne ((v / 2) / 2 powi (e - 53))) * 2 powi (e - 53) = v / 2"
  proof -
    have t: "(2::rat) powi (e - 53) * 2 = 2 powi (e - 52)"
      using power_int_add[of "2::rat" "e - 53" 1] by simp
    define n where "n = rne (v / 2 powi (e - 52))"
    have "of_int n * 2 powi (e - 53) * 2 = of_int n * ((2::rat) powi (e - 53) * 2)" by simp
    also have "\<dots> = v" unfolding t using v by (simp add: n_def)
    finally have "of_int n * 2 powi (e - 53) = v / 2" by simp
    then show ?thesis unfolding s n_def .
  qed
  have a: "\<bar>v / 2\<bar> = \<bar>v\<bar> / 2" by simp
  have q2: "max (ilog2 \<bar>v / 2\<bar> - 52) (- 1074) = e - 53"
    unfolding a e' using elo by simp
  have r: "rnd (v / 2) = v / 2"
    unfolding rnd_def Let_def q2 by (rule x)
  have "\<bar>v / 2\<bar> \<le> \<bar>v\<bar>" by simp
  then have nov': "\<not> 2 powi 1024 \<le> \<bar>v / 2\<bar>" using nov by linarith
  have h: "v / 2 \<noteq> 0" using vnz by simp
  show ?thesis unfolding round64_rnd r using h nov' by (simp only: if_False)
qed

section \<open>Facts about arithmetic on Numbers\<close>

lemma js_mul_neg_half: "js_mul (js_neg w) (Fin (1 / 2)) = js_neg (half w)"
  by (cases w) (simp_all add: round64_minus[symmetric])

lemma js_mul_half: "js_mul w (Fin (1 / 2)) = half w"
  by (cases w) simp_all

lemma half_neg: "half (js_neg w) = js_neg (half w)"
  using js_mul_neg_half[of w] by (simp only: js_mul_half)

lemma half_exact:
  assumes "is_double v" and "2 powi (- 1021) \<le> \<bar>v\<bar>"
  shows "half (Fin v) = Fin (v / 2)"
  using round64_halve[OF assms] by simp

lemma sum_07: "js_add (Fin 0) (Fin (3152519739159347 / 4503599627370496)) = Fin (3152519739159347 / 4503599627370496)"
  using round64_dyadic[of 3152519739159347 "- 52"] by simp

lemma sum_07_02:
  "js_add (Fin (3152519739159347 / 4503599627370496)) (Fin (3602879701896397 / 18014398509481984))
   = Fin (2026619832316723 / 2251799813685248)"
  using round64_tie[where e = "- 1" and n = 8106479329266892 and m = 8106479329266892
      and r = "3152519739159347 / 4503599627370496 + 3602879701896397 / 18014398509481984", OF _ _ refl]
  by simp

lemma sum_07_02_01:
  "js_add (Fin (2026619832316723 / 2251799813685248)) (Fin (3602879701896397 / 36028797018963968))
   = Fin (9007199254740991 / 9007199254740992)"
  using round64_near[where e = "- 1" and n = 9007199254740991
      and r = "2026619832316723 / 2251799813685248 + 3602879701896397 / 36028797018963968", OF _ _ refl]
  by simp

lemma sum_01: "js_add (Fin 0) (Fin (3602879701896397 / 36028797018963968)) = Fin (3602879701896397 / 36028797018963968)"
  using round64_dyadic[of 3602879701896397 "- 55"] by simp

lemma sum_01_02:
  "js_add (Fin (3602879701896397 / 36028797018963968)) (Fin (3602879701896397 / 18014398509481984))
   = Fin (1351079888211149 / 4503599627370496)"
  using round64_tie[where e = "- 2" and n = 5404319552844595 and m = 5404319552844596
      and r = "3602879701896397 / 36028797018963968 + 3602879701896397 / 18014398509481984", OF _ _ refl]
  by simp

lemma sum_01_02_07:
  "js_add (Fin (1351079888211149 / 4503599627370496)) (Fin (3152519739159347 / 4503599627370496)) = Fin 1"
  by simp

lemma on_grid_sum:
  assumes a: "on_grid k (Fin a)" and v: "on_grid k (Fin v)" and s: "a + v < 2 powi (k + 53)"
    and k: "- 1074 \<le> k" "k \<le> 970"
  shows "js_add (Fin a) (Fin v) = Fin (a + v)" and "on_grid k (Fin (a + v))"
proof -
  define m where "m = \<lfloor>a / 2 powi k\<rfloor> + \<lfloor>v / 2 powi k\<rfloor>"
  have p: "0 < (2::rat) powi k" by simp
  from a have fa: "of_int \<lfloor>a / 2 powi k\<rfloor> = a / 2 powi k" and a0: "0 \<le> a"
    unfolding on_grid.simps by blast+
  from v have fv: "of_int \<lfloor>v / 2 powi k\<rfloor> = v / 2 powi k" and v0: "0 \<le> v"
    unfolding on_grid.simps by blast+
  have "(of_int m :: rat) = a / 2 powi k + v / 2 powi k"
    by (simp only: m_def of_int_add fa fv)
  then have mk: "of_int m * 2 powi k = a + v" using p by (simp add: field_simps)
  have nn: "0 \<le> a + v" using a0 v0 by simp
  then have "0 \<le> (of_int m :: rat) * 2 powi k" using mk by simp
  then have m0: "0 \<le> m" using p by (simp add: zero_le_mult_iff)
  have "(of_int m :: rat) * 2 powi k < 2 powi (k + 53)" using mk s by simp
  also have "\<dots> = of_int (2 ^ 53) * 2 powi k" by (simp add: power_int_add)
  finally have "(of_int m :: rat) < of_int (2 ^ 53)" using p by (simp only: mult_less_cancel_right_pos)
  then have "m < 2 ^ 53" by (simp only: of_int_less_iff)
  then have m53: "\<bar>m\<bar> < 2 ^ 53" using m0 by simp
  have "(2::rat) powi (k + 53) \<le> 2 powi 1024" using k by (intro power_int_increasing) simp_all
  then have "\<bar>of_int m * 2 powi k\<bar> < (2::rat) powi 1024" using mk s nn by simp
  from round64_dyadic[OF m53 k(1) this] show "js_add (Fin a) (Fin v) = Fin (a + v)" by (simp add: mk)
  have "(a + v) / 2 powi k = of_int m" using mk[symmetric] p by simp
  then have "of_int \<lfloor>(a + v) / 2 powi k\<rfloor> = (a + v) / 2 powi k" by simp
  then show "on_grid k (Fin (a + v))" using nn unfolding on_grid.simps by blast
qed

lemma foldl_exact:
  assumes "on_grid k (Fin a)" and "list_all (on_grid k) hs"
    and "a + sum_list (map num_value hs) < 2 powi (k + 53)" and "- 1074 \<le> k" and "k \<le> 970"
  shows "foldl js_add (Fin a) hs = Fin (a + sum_list (map num_value hs))"
  using assms
proof (induction hs arbitrary: a)
  case Nil
  then show ?case by simp
next
  case (Cons h hs)
  from Cons.prems(2) obtain v where h: "h = Fin v" and g: "on_grid k (Fin v)" and r: "list_all (on_grid k) hs"
    by (cases h) simp_all
  have "0 \<le> sum_list (map num_value hs)"
    using r by (induction hs) (auto elim!: on_grid.elims)
  then have s: "a + v < 2 powi (k + 53)" using Cons.prems(3) h by simp
  note e = on_grid_sum[OF Cons.prems(1) g s Cons.prems(4,5)]
  have "foldl js_add (Fin (a + v)) hs = Fin (a + v + sum_list (map num_value hs))"
    using Cons.prems(3) h by (intro Cons.IH e(2) r Cons.prems(4,5)) (simp add: add.assoc)
  then show ?case using e(1) h by (simp add: add.assoc del: js_add.simps)
qed

lemma exact_heights_sum:
  assumes "exact_heights k hs"
  shows "foldl js_add (Fin 0) hs = Fin (sum_list (map num_value hs))"
  using foldl_exact[of k 0 hs] assms by (simp add: exact_heights_def)

lemma exact_heights_mset:
  assumes "exact_heights k hs" and "mset hs' = mset hs"
  shows "exact_heights k hs'" and "sum_list (map num_value hs') = sum_list (map num_value hs)"
proof -
  have "set hs' = set hs" using assms(2) by (rule mset_eq_setD)
  moreover have "mset (map num_value hs') = mset (map num_value hs)" using assms(2) by simp
  then show s: "sum_list (map num_value hs') = sum_list (map num_value hs)"
    by (metis sum_mset_sum_list)
  ultimately show "exact_heights k hs'" using assms(1) by (simp add: exact_heights_def list_all_iff)
qed


lemma js_le_refl: "nonneg_num a \<Longrightarrow> js_le a a"
  by (cases a) simp_all




section \<open>Facts about pages\<close>

lemma node_of_map_node [simp]: "node_of (map_node f e) = f (node_of e)"
  by (cases e) simp_all

lemma num_or_same [simp]: "num_or (Some v) v = v"
  by simp

lemma visible_setVisible [simp]: "visible (node_of (setVisible b p)) = b"
  by (cases p) (simp_all add: setVisible_def)

lemma setVisible_same: "visible (node_of p) = b \<Longrightarrow> setVisible b p = p"
  by (cases p) (auto simp add: setVisible_def)

lemma setVisible_twice [simp]: "setVisible b (setVisible b' p) = setVisible b p"
  by (cases p) (simp_all add: setVisible_def)

lemma one_visible_pageId: "one_visible c \<Longrightarrow> \<exists>i. pageId c = Some (int i)"
  by (auto simp add: one_visible_def split: option.splits intro: exI[of _ "nat _"])

lemma one_visibleD:
  assumes "one_visible c" "pageId c = Some (int i)"
  shows "i < length (pages c)" and "currPage c = Some i"
    and "k < length (pages c) \<Longrightarrow> visible (node_of (pages c ! k)) = (k = i)"
proof -
  from assms have j: "i < length (pages c)" "currPage c = Some i"
    "visibility c = map (\<lambda>k. k = i) [0..<length (pages c)]"
    by (auto simp add: one_visible_def split: option.splits)
  show "i < length (pages c)" "currPage c = Some i" using j by simp_all
  assume k: "k < length (pages c)"
  have "visibility c ! k = (map (\<lambda>k. k = i) [0..<length (pages c)]) ! k" using j(3) by simp
  then show "visible (node_of (pages c ! k)) = (k = i)" using k by (simp add: visibility_def)
qed

lemma one_visibleI:
  assumes "pageId c = Some (int i)" "i < length (pages c)" "currPage c = Some i"
    "\<And>k. k < length (pages c) \<Longrightarrow> visible (node_of (pages c ! k)) = (k = i)"
  shows "one_visible c"
proof -
  have "visibility c = map (\<lambda>k. k = i) [0..<length (pages c)]"
    by (rule nth_equalityI) (simp_all add: visibility_def assms(4))
  then show ?thesis using assms(1-3) by (simp add: one_visible_def)
qed

lemma flip_one_visible:
  assumes "one_visible c" "pageId c = Some (int i)" "j < length (pages c)"
  shows "one_visible (flip i j c)"
proof -
  note i' = one_visibleD[OF assms(1,2)]
  show ?thesis
  proof (rule one_visibleI[where i = j])
    fix k assume "k < length (pages (flip i j c))"
    then have k: "k < length (pages c)" by (simp add: flip_def)
    show "visible (node_of (pages (flip i j c) ! k)) = (k = j)"
      using k i'(1) i'(3)[of k] assms(3) by (auto simp add: flip_def nth_list_update)
  qed (simp_all add: flip_def assms(3))
qed

lemma flip_back:
  assumes "one_visible c" "pageId c = Some (int i)" "j < length (pages c)"
  shows "flip j i (flip i j c) = c"
proof -
  note i' = one_visibleD[OF assms(1,2)]
  have "pages (flip j i (flip i j c)) = pages c"
  proof (rule nth_equalityI)
    fix k assume "k < length (pages (flip j i (flip i j c)))"
    then have k: "k < length (pages c)" by (simp add: flip_def)
    show "pages (flip j i (flip i j c)) ! k = pages c ! k"
      using k i'(1) i'(3)[of k] assms(3)
      by (auto simp add: flip_def nth_list_update setVisible_same)
  qed (simp add: flip_def)
  then show ?thesis using assms(2) i'(2) by (simp add: flip_def)
qed

lemma js_rem_nonneg: "0 \<le> a \<Longrightarrow> n \<noteq> 0 \<Longrightarrow> js_rem a n = Some (a mod int n)"
  by (cases "a = 0") (simp_all add: js_rem_def)

lemma nextPage_flip:
  assumes "one_visible c" "pageId c = Some (int i)"
  shows "nextPage c = Ok (flip i ((i + 1) mod length (pages c)) c)"
proof -
  note i' = assms(2) one_visibleD(1,2)[OF assms(1,2)]
  have n: "length (pages c) \<noteq> 0" using i'(2) by auto
  have "int ((i + 1) mod length (pages c)) = (int i + 1) mod int (length (pages c))"
    by (simp add: zmod_int add.commute)
  then have r: "js_rem (int i + 1) (length (pages c)) = Some (int ((i + 1) mod length (pages c)))"
    using n by (simp add: js_rem_def)
  show ?thesis
    using i' n r
    by (simp add: nextPage_def Let_def then_do_def currPage_setVisible_def page_ref_def flip_def)
qed

lemma prevPage_flip:
  assumes "one_visible c" "pageId c = Some (int i)"
  shows "prevPage c = Ok (flip i ((i + length (pages c) - 1) mod length (pages c)) c)"
proof -
  note i' = assms(2) one_visibleD(1,2)[OF assms(1,2)]
  have n: "length (pages c) \<noteq> 0" using i'(2) by auto
  show ?thesis
  proof (cases "i = 0")
    case True
    show ?thesis
    proof (cases "length (pages c) = 1")
      case one: True
      have r: "js_rem (int i - 1) (length (pages c)) = Some 0"
        using one True by (simp add: js_rem_def)
      show ?thesis using i' r True one
        by (simp add: prevPage_def Let_def then_do_def currPage_setVisible_def page_ref_def flip_def)
    next
      case False
      then have "1 < int (length (pages c))" using n by linarith
      then have "1 mod int (length (pages c)) = 1" by simp
      then have r: "js_rem (int i - 1) (length (pages c)) = Some (- 1)"
        using n True by (simp add: js_rem_def)
      have m: "nat (int (length (pages c)) - 1) = length (pages c) - 1" by simp
      have m': "(length (pages c) - 1) mod length (pages c) = length (pages c) - 1"
        using n by simp
      have m2: "int (length (pages c) - Suc 0) = int (length (pages c)) - 1"
        using n by (cases "length (pages c)") simp_all
      show ?thesis using i' n r True m m' m2
        by (simp add: prevPage_def Let_def then_do_def currPage_setVisible_def page_ref_def flip_def)
    qed
  next
    case False
    then have "js_rem (int i - 1) (length (pages c)) = Some ((int i - 1) mod int (length (pages c)))"
      using n by (intro js_rem_nonneg) auto
    moreover have "(int i - 1) mod int (length (pages c)) = int (i - 1)"
      using False i'(2) by (simp add: of_nat_diff)
    ultimately have r: "js_rem (int i - 1) (length (pages c)) = Some (int (i - 1))" by simp
    have m: "(i + length (pages c) - 1) mod length (pages c) = i - 1"
      using False i'(2) by (simp add: mod_if)
    have m3: "nat (int i - 1) = i - Suc 0" by simp
    show ?thesis using i' n r m m3 False
      by (simp add: prevPage_def Let_def then_do_def currPage_setVisible_def page_ref_def flip_def)
  qed
qed

lemma one_visible_count:
  assumes "one_visible c"
  shows "count_visible c = 1"
proof -
  from one_visible_pageId[OF assms] obtain i where i: "pageId c = Some (int i)" by blast
  note d = one_visibleD[OF assms i]
  have "{k. k < length (pages c) \<and> visible (node_of (pages c ! k))} = {i}"
    using d(1) d(3) by auto
  then show ?thesis by (simp add: count_visible_def length_filter_conv_card)
qed

lemma flip_length [simp]: "length (pages (flip i j c)) = length (pages c)"
  by (simp add: flip_def)

lemma flip_pageId [simp]: "pageId (flip i j c) = Some (int j)"
  by (simp add: flip_def)

lemma turn_one_visible:
  "one_visible c \<Longrightarrow> \<exists>c'. turn ops c = Ok c' \<and> one_visible c' \<and> length (pages c') = length (pages c)"
proof (induction ops arbitrary: c)
  case Nil
  then show ?case by simp
next
  case (Cons x ops)
  from one_visible_pageId[OF Cons.prems] obtain i where i: "pageId c = Some (int i)" by blast
  have n: "0 < length (pages c)" using one_visibleD(1)[OF Cons.prems i] by (cases "pages c") simp_all
  show ?case
  proof (cases x)
    case Next
    let ?c = "flip i ((i + 1) mod length (pages c)) c"
    have "one_visible ?c" using Cons.prems i n by (intro flip_one_visible) simp_all
    from Cons.IH[OF this] show ?thesis
      using nextPage_flip[OF Cons.prems i] Next by (simp add: then_do_def)
  next
    case Prev
    let ?c = "flip i ((i + length (pages c) - 1) mod length (pages c)) c"
    have "one_visible ?c" using Cons.prems i n by (intro flip_one_visible) simp_all
    from Cons.IH[OF this] show ?thesis
      using prevPage_flip[OF Cons.prems i] Prev by (simp add: then_do_def)
  qed
qed

lemma addPage_later_one_visible:
  assumes "one_visible c"
  shows "\<exists>c'. addPage (JElement p) d c = Ok c' \<and> one_visible c' \<and> currPage c' = currPage c
     \<and> pageId c' = pageId c \<and> length (pages c') = Suc (length (pages c))
     \<and> take (length (pages c)) (pages c') = pages c
     \<and> \<not> visible (node_of (last (pages c')))"
proof -
  from one_visible_pageId[OF assms] obtain i where i: "pageId c = Some (int i)" by blast
  note d = one_visibleD[OF assms i]
  have ne: "pages c \<noteq> []" using d(1) by auto
  obtain p' where a: "addPage (JElement p) d c = Ok (c\<lparr>pages := pages c @ [setVisible False p']\<rparr>)"
    using ne by (simp add: addPage_def Let_def)
  have "one_visible (c\<lparr>pages := pages c @ [setVisible False p']\<rparr>)"
  proof (rule one_visibleI[where i = i])
    fix k assume "k < length (pages (c\<lparr>pages := pages c @ [setVisible False p']\<rparr>))"
    then show "visible (node_of (pages (c\<lparr>pages := pages c @ [setVisible False p']\<rparr>) ! k)) = (k = i)"
      using d(1) d(3)[of k] by (auto simp add: nth_append)
  qed (use i d in simp_all)
  then show ?thesis using a by simp
qed

text \<open>What \<^verbatim>\<open>addPage\<close> returns, for a page that is new and for one that already is a page.\<close>

lemma num_or_page_width:
  "num_or (fst (case d of None \<Rightarrow> (Some (data_width c), Some (data_height c)) | Some x \<Rightarrow> x)) (data_width c)
   = page_width d c"
  by (cases d) auto

lemma num_or_page_height:
  "num_or (snd (case d of None \<Rightarrow> (Some (data_width c), Some (data_height c)) | Some x \<Rightarrow> x)) (data_height c)
   = page_height d c"
  by (cases d) auto

lemma addPage_as_page:
  "addPage (JElement p) d c =
     Ok (c\<lparr>pages := pages c @ [as_page d c (pages c = []) p],
           pageId := (if pages c = [] then Some 0 else pageId c),
           currPage := (if pages c = [] then Some 0 else currPage c)\<rparr>)"
proof -
  have "setVisible b (map_node (\<lambda>n. n\<lparr>group_parent := Some (pageGroup c),
            parentDimensions := Some (page_width d c, page_height d c),
            pos_x := js_mul (js_neg (page_width d c)) (Fin (1 / 2)),
            pos_y := js_mul (page_height d c) (Fin (1 / 2))\<rparr>) p) = as_page d c b p" for b
    by (cases p) (simp_all add: setVisible_def as_page_def js_mul_half half_neg del: js_mul.simps half.simps)
  then show ?thesis
    by (simp add: addPage_def Let_def num_or_page_width num_or_page_height del: js_mul.simps)
qed

lemma addPage_again_as_page:
  assumes "k < length (pages c)"
  shows "addPage_again k d c =
     Ok (c\<lparr>pages := (pages c)[k := as_page d c False (pages c ! k)] @ [as_page d c False (pages c ! k)]\<rparr>)"
proof -
  have "setVisible b (map_node (\<lambda>n. n\<lparr>group_parent := Some (pageGroup c),
            parentDimensions := Some (page_width d c, page_height d c),
            pos_x := js_mul (js_neg (page_width d c)) (Fin (1 / 2)),
            pos_y := js_mul (page_height d c) (Fin (1 / 2))\<rparr>) p) = as_page d c b p" for b p
    by (cases p) (simp_all add: setVisible_def as_page_def js_mul_half half_neg del: js_mul.simps half.simps)
  moreover from assms have "pages c \<noteq> []" by auto
  ultimately show ?thesis using assms
    by (simp add: addPage_again_def Let_def num_or_page_width num_or_page_height del: js_mul.simps)
qed

lemma visible_as_page [simp]: "visible (node_of (as_page d c b p)) = b"
  by (simp add: as_page_def)

section \<open>Facts about hovering\<close>

lemma hover_map_node_descendants:
  "descendants (map_node f e) = descendants e"
  by (cases e) simp_all

lemma forceExit_clears:
  "list_all (\<lambda>d. \<not> hover (node_of d)) (descendants (forceExit e))"
proof (induction e rule: forceExit.induct)
  case (1 nd)
  then show ?case by simp
next
  case (2 nd cs)
  then show ?case
    by (auto simp add: list_all_iff hover_map_node_descendants)
qed

text \<open>
  \<^verbatim>\<open>forceExit\<close> keeps the tree: below the root every element is where it was, with its fields
  but \<open>hover\<close>, which is cleared; the root keeps all its fields.
\<close>

lemma at_path_forceExit_child:
  "at_path p (map_node (\<lambda>n. n\<lparr>hover := False\<rparr>) (forceExit e)) = map_option unhovered (at_path p e)"
proof (induction p arbitrary: e)
  case Nil
  then show ?case by (cases e) (simp_all add: at_path_def unhovered_def)
next
  case (Cons i q)
  show ?case
  proof (cases e)
    case (View nd)
    then show ?thesis by (simp add: at_path_def)
  next
    case (Layout nd cs)
    show ?thesis
    proof (cases "i < length cs")
      case True
      then show ?thesis using Cons.IH[of "cs ! i"] Layout by (simp add: at_path_def)
    next
      case False
      then show ?thesis using Layout by (simp add: at_path_def)
    qed
  qed
qed

lemma at_path_forceExit:
  "at_path p (forceExit (Layout (nd\<lparr>hover := False\<rparr>) cs)) = map_option unhovered (at_path p (Layout nd cs))"
proof -
  have "forceExit (Layout (nd\<lparr>hover := False\<rparr>) cs)
        = map_node (\<lambda>n. n\<lparr>hover := False\<rparr>) (forceExit (Layout nd cs))"
    by simp
  then show ?thesis by (simp only: at_path_forceExit_child)
qed

lemma checkHover_hit_elements:
  "hit r (node_of this) \<Longrightarrow> elements (fst (snd (checkHover hit r this))) = elements this"
  by (cases this) (simp_all add: checkHover_def)

lemma intersect_elements_tested:
  "intersect_elements hit vi r pressed cs =
     (\<exists>c \<in> set cs. fst (intersect hit vi r pressed c),
      map (\<lambda>c. fst (snd (intersect hit vi r pressed c))) (take (tested hit vi r pressed cs) cs)
        @ drop (tested hit vi r pressed cs) cs,
      concat (map (\<lambda>c. snd (snd (intersect hit vi r pressed c))) (take (tested hit vi r pressed cs) cs)))"
proof (induction cs)
  case Nil
  then show ?case by (simp add: tested_def)
next
  case (Cons c cs)
  obtain b c' evs where c: "intersect hit vi r pressed c = (b, c', evs)" by (cases "intersect hit vi r pressed c")
  show ?case
  proof (cases b)
    case True
    then show ?thesis using c by (simp add: tested_def)
  next
    case False
    have t: "tested hit vi r pressed (c # cs) = Suc (tested hit vi r pressed cs)"
      using c False by (simp add: tested_def)
    show ?thesis using c False Cons.IH by (simp add: t)
  qed
qed

section \<open>Facts about the search for a layout\<close>

lemma snd_children_at: "map snd (children_at p e) = children e"
  by (cases e) (simp_all add: map_snd_zip)

lemma descendants_children:
  "list_all P (descendants e) = list_all (\<lambda>c. P c \<and> list_all P (descendants c)) (children e)"
  by (cases e) (auto simp add: list_all_iff)

lemma list_all_children_at:
  "list_all (\<lambda>x. P (snd x)) (children_at p e) = list_all P (children e)"
proof -
  have "list_all (\<lambda>x. P (snd x)) (children_at p e) = list_all P (map snd (children_at p e))"
    by (simp add: list_all_iff)
  then show ?thesis by (simp only: snd_children_at)
qed

text \<open>The search finds nothing exactly when nothing in the queue, and nothing below it,
  is the element looked for.\<close>

lemma visit_loop_None:
  "visit_loop callback visited = None
   \<longleftrightarrow> list_all (\<lambda>x. \<not> callback (snd x) \<and> list_all (\<lambda>d. \<not> callback d) (descendants (snd x))) visited"
proof (induction callback visited rule: visit_loop.induct)
  case (1 callback)
  then show ?case by simp
next
  case (2 callback x visited)
  show ?case
  proof (cases "callback (snd x)")
    case True
    then show ?thesis by simp
  next
    case False
    have "list_all (\<lambda>y. \<not> callback (snd y) \<and> list_all (\<lambda>d. \<not> callback d) (descendants (snd y)))
            (children_at (fst x) (snd x))
          = list_all (\<lambda>d. \<not> callback d) (descendants (snd x))"
      unfolding list_all_children_at[of "\<lambda>c. \<not> callback c \<and> list_all (\<lambda>d. \<not> callback d) (descendants c)"]
      by (simp only: descendants_children[symmetric])
    then show ?thesis using False 2 by auto
  qed
qed

lemma visit_None:
  "visit layout callback = None \<longleftrightarrow> list_all (\<lambda>d. \<not> callback d) (descendants layout)"
proof (cases layout)
  case (View nd)
  then show ?thesis by (simp add: visit_def)
next
  case (Layout nd cs)
  have "visit layout callback = None
        \<longleftrightarrow> list_all (\<lambda>x. \<not> callback (snd x) \<and> list_all (\<lambda>d. \<not> callback d) (descendants (snd x)))
              (children_at [] layout)"
    using Layout by (simp add: visit_def visit_loop_None)
  then show ?thesis
    unfolding list_all_children_at[of "\<lambda>c. \<not> callback c \<and> list_all (\<lambda>d. \<not> callback d) (descendants c)"]
    by (simp only: descendants_children[symmetric])
qed

text \<open>What the search finds is the element at the path it answers, and it is the element
  looked for.\<close>

lemma get_at_append:
  "get_at p e = Some e' \<Longrightarrow> get_at (p @ q) e = get_at q e'"
proof (induction p e rule: get_at.induct)
  case (1 e)
  then show ?case by simp
next
  case (2 i p nd)
  then show ?case by simp
next
  case (3 i p nd cs)
  then show ?case by (simp split: if_splits)
qed

lemma children_at_get:
  assumes "get_at p layout = Some e" and "x \<in> set (children_at p e)"
  shows "get_at (fst x) layout = Some (snd x)"
proof (cases e)
  case (View nd)
  then show ?thesis using assms by simp
next
  case (Layout nd cs)
  with assms(2) obtain i where i: "i < length cs" "x = (p @ [i], cs ! i)"
    by (auto simp add: set_zip)
  have "get_at (p @ [i]) layout = get_at [i] e" using assms(1) by (rule get_at_append)
  then show ?thesis using i Layout by simp
qed

lemma visit_loop_Some:
  assumes "visit_loop callback visited = Some x"
    and "\<forall>y \<in> set visited. get_at (fst y) layout = Some (snd y)"
  shows "get_at (fst x) layout = Some (snd x) \<and> callback (snd x)"
  using assms
proof (induction callback visited rule: visit_loop.induct)
  case (1 callback)
  then show ?case by simp
next
  case (2 callback y visited)
  show ?case
  proof (cases "callback (snd y)")
    case True
    then show ?thesis using 2 by simp
  next
    case False
    have "\<forall>z \<in> set (visited @ children_at (fst y) (snd y)). get_at (fst z) layout = Some (snd z)"
      using "2.prems"(2) children_at_get[of "fst y" layout "snd y"] by auto
    then show ?thesis using 2 False by simp
  qed
qed

lemma visit_Some:
  assumes "visit layout callback = Some x"
  shows "get_at (fst x) layout = Some (snd x) \<and> callback (snd x)"
proof (cases layout)
  case (View nd)
  then show ?thesis using assms by (simp add: visit_def)
next
  case (Layout nd cs)
  have g: "\<forall>y \<in> set (children_at [] layout). get_at (fst y) layout = Some (snd y)"
    using children_at_get[of "[]" layout layout] by simp
  have v: "visit_loop callback (children_at [] layout) = Some x"
    using assms Layout by (simp add: visit_def)
  from visit_loop_Some[OF v g] show ?thesis .
qed

lemma descendants_setVisible [simp]: "descendants (setVisible b e) = descendants e"
  by (simp add: setVisible_def hover_map_node_descendants)

lemma is_layout_map_node [simp]: "is_layout (map_node f e) = is_layout e"
  by (cases e) simp_all

lemma elements_map_node [simp]: "elements (map_node f e) = elements e"
  by (cases e) simp_all

lemma update_last:
  "xs \<noteq> [] \<Longrightarrow> (xs @ [p])[length xs - Suc 0 := y] = butlast xs @ [y, p]"
  by (induction xs rule: rev_induct) (simp_all add: list_update_append)

lemma nth_last_append:
  "xs \<noteq> [] \<Longrightarrow> (xs @ [p]) ! (length xs - Suc 0) = last xs"
  by (induction xs rule: rev_induct) (simp_all add: nth_append)

lemma update_last':
  "xs \<noteq> [] \<Longrightarrow> xs[length xs - Suc 0 := y] = butlast xs @ [y]"
  by (induction xs rule: rev_induct) simp_all

lemma addItems_append:
  "addItems (xs @ ys) l = (case addItems xs l of Ok l' \<Rightarrow> addItems ys l' | Throw e l' \<Rightarrow> Throw e l')"
  by (induction xs arbitrary: l) (simp_all split: result.splits)

lemma addItems_elements:
  "addItems (map JElement es) (Layout nd cs) = Ok (Layout nd (cs @ map (group_add nd) es))"
  by (induction es arbitrary: cs) simp_all

section \<open>Facts about the placement of children\<close>

lemma place_vertical_node:
  "\<exists>y. node_of (fst (place_vertical height offset elt)) = (node_of elt)\<lparr>pos_y := y\<rparr>"
proof (cases "s_align (style (node_of elt))")
  case AlignTop
  then show ?thesis by (simp add: place_vertical_def Let_def) blast
next
  case AlignCenter
  then show ?thesis by (auto simp add: place_vertical_def Let_def intro: exI[of _ "pos_y (node_of elt)"])
next
  case AlignBottom
  then show ?thesis by (simp add: place_vertical_def Let_def) blast
next
  case AlignOther
  then show ?thesis by (auto simp add: place_vertical_def Let_def intro: exI[of _ "pos_y (node_of elt)"])
qed

lemma place_horizontal_pos_x:
  "pos_x (node_of (place_horizontal mw elt)) = horizontal_offset mw (pos_x (node_of elt)) elt"
  by (cases "s_position (style (node_of elt))") (simp_all add: place_horizontal_def horizontal_offset_def Let_def)

lemma horizontal_offset_cong:
  "node_of e' = (node_of e)\<lparr>pos_y := y\<rparr> \<Longrightarrow>
   horizontal_offset mw (pos_x (node_of e')) e' = horizontal_offset mw (pos_x (node_of e)) e"
  by (simp add: horizontal_offset_def split: hposition.splits)

text \<open>A refreshed element has the fields its own inherited \<^verbatim>\<open>refresh\<close> resolved.\<close>

lemma refresh_node: "node_of (fst (refresh rf w h c)) = rf w h (node_of c)"
  by (cases c) (simp_all add: Let_def split: prod.splits)

text \<open>Without horizontal padding a layout leaves its whole width to each child.\<close>

lemma inner_width_no_padding:
  assumes "b_left (d_padding (dimensions nd)) = Fin 0" and "b_right (d_padding (dimensions nd)) = Fin 0"
    and "is_number (d_width (dimensions nd))"
  shows "inner_width nd = d_width (dimensions nd)"
proof (cases "d_width (dimensions nd)")
  case (Fin v)
  then have "round64 v = Fin v" using assms(3) by (simp add: is_double_def)
  then show ?thesis using assms(1,2) Fin by (simp add: inner_width_def js_sub_def)
qed (use assms(1,2) in \<open>simp_all add: inner_width_def js_sub_def\<close>)

lemma refresh_elements_pos_x:
  "map (\<lambda>e. pos_x (node_of e)) (fst (refresh_elements rf mw mh height offset cs))
   = map (\<lambda>c. horizontal_offset mw (pos_x (rf mw mh (node_of c))) (fst (refresh rf mw mh c))) cs"
proof (induction cs arbitrary: offset)
  case Nil
  then show ?case by simp
next
  case (Cons c cs)
  obtain c1 ws1 where r: "refresh rf mw mh c = (c1, ws1)" by (cases "refresh rf mw mh c")
  obtain c2 off' ws2 where p: "place_vertical height offset c1 = (c2, off', ws2)"
    by (cases "place_vertical height offset c1") auto
  obtain rest' ws3 where q: "refresh_elements rf mw mh height off' cs = (rest', ws3)"
    by (cases "refresh_elements rf mw mh height off' cs")
  from place_vertical_node[of height offset c1] p obtain y where
    "node_of c2 = (node_of c1)\<lparr>pos_y := y\<rparr>" by auto
  then have "horizontal_offset mw (pos_x (node_of c2)) c2 = horizontal_offset mw (pos_x (node_of c1)) c1"
    by (rule horizontal_offset_cong)
  moreover have "node_of c1 = rf mw mh (node_of c)" using refresh_node[of rf mw mh c] r by simp
  ultimately show ?case using r p q Cons.IH[of off'] by (simp add: place_horizontal_pos_x)
qed







section \<open>Properties of the specification\<close>

subsection \<open>Adding under a layout id that no element has\<close>

text \<open>
  C1. In automatic mode with a layout as template, \<^verbatim>\<open>add\<close> with a \<open>layoutID\<close> that no element
  below the last page declares throws the error of the test
  \<^verbatim>\<open>!( lastPage instanceof AbstractLayout )\<close>: with the state unchanged when there is a page, and
  after page 0 has been created from the template when there is none. No warning is
  written.
\<close>

theorem add_unresolved_layoutID:
  assumes "mode_type c = AUTOMATIC_ADDING" and "mode_template c = Some (Layout tn tcs)"
    and "given layoutID"
  shows "(pages c \<noteq> [] \<and> list_all (\<lambda>d. data_id (node_of d) \<noteq> layoutID) (descendants (last (pages c)))
          \<longrightarrow> add clone (JElement e) layoutID c = Throw Error_target_not_layout c)
       \<and> (pages c = [] \<and> list_all (\<lambda>d. data_id (node_of d) \<noteq> layoutID) (descendants (clone (Layout tn tcs)))
          \<longrightarrow> (\<exists>c'. addPage (JElement (clone (Layout tn tcs))) None c = Ok c'
                 \<and> length (pages c') = 1 \<and> console c' = console c
                 \<and> add clone (JElement e) layoutID c = Throw Error_target_not_layout c'))"
proof (intro conjI impI)
  assume a: "pages c \<noteq> [] \<and> list_all (\<lambda>d. data_id (node_of d) \<noteq> layoutID) (descendants (last (pages c)))"
  then have ne: "pages c \<noteq> []" by simp
  have l: "pages c ! (length (pages c) - Suc 0) = last (pages c)" using ne by (simp add: last_conv_nth)
  have "visit (last (pages c)) (findLayout layoutID) = None"
    using a by (simp add: visit_None findLayout_def)
  then have "visit_page c (length (pages c) - 1) [] layoutID = None"
    using ne l by (simp add: visit_page_def deref_def)
  then show "add clone (JElement e) layoutID c = Throw Error_target_not_layout c"
    using assms ne by (simp add: add_def add1_def addWithExpansion_def then_do_def Let_def)
next
  assume a: "pages c = [] \<and> list_all (\<lambda>d. data_id (node_of d) \<noteq> layoutID) (descendants (clone (Layout tn tcs)))"
  define p' where "p' = setVisible True
     (map_node (\<lambda>n. n\<lparr>group_parent := Some (pageGroup c),
                         parentDimensions := Some (data_width c, data_height c),
                         pos_x := js_mul (js_neg (data_width c)) (Fin (1 / 2)),
                         pos_y := js_mul (data_height c) (Fin (1 / 2))\<rparr>) (clone (Layout tn tcs)))"
  have p: "addPage (JElement (clone (Layout tn tcs))) None c = Ok (c\<lparr>pages := [p'], pageId := Some 0, currPage := Some 0\<rparr>)"
    using a by (simp add: addPage_def Let_def p'_def del: js_mul.simps)
  let ?c = "c\<lparr>pages := [p'], pageId := Some 0, currPage := Some 0\<rparr>"
  have "descendants p' = descendants (clone (Layout tn tcs))"
    by (simp add: p'_def hover_map_node_descendants)
  then have "visit p' (findLayout layoutID) = None"
    using a by (simp add: visit_None findLayout_def)
  then have "visit_page ?c 0 [] layoutID = None"
    by (simp add: visit_page_def deref_def)
  then have "add clone (JElement e) layoutID c = Throw Error_target_not_layout ?c"
    using assms a p by (simp add: add_def add1_def addWithExpansion_def then_do_def Let_def)
  then show "\<exists>c'. addPage (JElement (clone (Layout tn tcs))) None c = Ok c'
                 \<and> length (pages c') = 1 \<and> console c' = console c
                 \<and> add clone (JElement e) layoutID c = Throw Error_target_not_layout c'"
    using p by simp
qed

theorem add_unresolved_layoutID_witness:
  "mode_type one_page = AUTOMATIC_ADDING \<and> mode_template one_page = Some (Layout fresh [])
   \<and> given (Some ''sidebar'') \<and> pages one_page \<noteq> []
   \<and> list_all (\<lambda>d. data_id (node_of d) \<noteq> Some ''sidebar'') (descendants (last (pages one_page)))
   \<and> add (\<lambda>t. t) (JElement (item (Fin 1))) (Some ''sidebar'') one_page = Throw Error_target_not_layout one_page
   \<and> mode_type empty_ui = AUTOMATIC_ADDING \<and> mode_template empty_ui = Some (Layout fresh [])
   \<and> pages empty_ui = []
   \<and> list_all (\<lambda>d. data_id (node_of d) \<noteq> Some ''sidebar'') (descendants (Layout fresh []))
   \<and> (\<exists>c'. add (\<lambda>t. t) (JElement (item (Fin 1))) (Some ''sidebar'') empty_ui = Throw Error_target_not_layout c'
         \<and> length (pages c') = 1 \<and> console c' = [])"
proof -
  have 1: "mode_type one_page = AUTOMATIC_ADDING" "mode_template one_page = Some (Layout fresh [])"
    "pages one_page \<noteq> []"
    "list_all (\<lambda>d. data_id (node_of d) \<noteq> Some ''sidebar'') (descendants (last (pages one_page)))"
    by (simp_all add: one_page_def empty_ui_def init_def)
  have 2: "mode_type empty_ui = AUTOMATIC_ADDING" "mode_template empty_ui = Some (Layout fresh [])"
    "pages empty_ui = []" "console empty_ui = []"
    "list_all (\<lambda>d. data_id (node_of d) \<noteq> Some ''sidebar'') (descendants (Layout fresh []))"
    by (simp_all add: empty_ui_def init_def)
  have g: "given (Some ''sidebar'')" by simp
  from add_unresolved_layoutID[OF 1(1,2) g, of "\<lambda>t. t" "item (Fin 1)"] 1(3,4)
  have a: "add (\<lambda>t. t) (JElement (item (Fin 1))) (Some ''sidebar'') one_page = Throw Error_target_not_layout one_page"
    by blast
  from add_unresolved_layoutID[OF 2(1,2) g, of "\<lambda>t. t" "item (Fin 1)"] 2(3,5)
  obtain c' where b: "add (\<lambda>t. t) (JElement (item (Fin 1))) (Some ''sidebar'') empty_ui = Throw Error_target_not_layout c'"
    "length (pages c') = 1" "console c' = console empty_ui"
    by blast
  from 1 2 g a b show ?thesis by auto
qed

subsection \<open>Adding to the last page\<close>

text \<open>
  C2. In automatic mode with a layout as template and no \<open>layoutID\<close>, \<^verbatim>\<open>add\<close> appends the
  element to the last page, a layout, whether or not that page is full; when it is full a
  page freshly cloned from the template is appended first, hidden, and left as the clone
  came: the element does not go there.
\<close>

theorem add_last_page:
  assumes "mode_type c = AUTOMATIC_ADDING" and "mode_template c = Some (Layout tn tcs)"
    and "pages c \<noteq> []" and "last (pages c) = Layout nd cs"
  shows "\<exists>p'. addPage (JElement (clone (Layout tn tcs))) None c = Ok (c\<lparr>pages := pages c @ [p']\<rparr>)
       \<and> elements p' = elements (clone (Layout tn tcs))
       \<and> add clone (JElement e) None c =
           Ok (c\<lparr>pages := butlast (pages c) @ [Layout nd (cs @ [group_add nd e])]
                            @ (if isFull (Layout nd cs) then [p'] else [])\<rparr>)"
proof -
  define p' where "p' = setVisible False
     (map_node (\<lambda>n. n\<lparr>group_parent := Some (pageGroup c),
                         parentDimensions := Some (data_width c, data_height c),
                         pos_x := js_mul (js_neg (data_width c)) (Fin (1 / 2)),
                         pos_y := js_mul (data_height c) (Fin (1 / 2))\<rparr>) (clone (Layout tn tcs)))"
  have p: "addPage (JElement (clone (Layout tn tcs))) None c = Ok (c\<lparr>pages := pages c @ [p']\<rparr>)"
    using assms(3) by (simp add: addPage_def Let_def p'_def del: js_mul.simps)
  have el: "elements p' = elements (clone (Layout tn tcs))"
    by (simp add: p'_def setVisible_def)
  have l: "pages c ! (length (pages c) - Suc 0) = Layout nd cs"
    using assms(3,4) by (simp add: last_conv_nth)
  have d: "deref c (length (pages c) - Suc 0, []) = Some (Layout nd cs)"
    using assms(3) l by (simp add: deref_def)
  have "add clone (JElement e) None c =
           Ok (c\<lparr>pages := butlast (pages c) @ [Layout nd (cs @ [group_add nd e])]
                            @ (if isFull (Layout nd cs) then [p'] else [])\<rparr>)"
  proof (cases "isFull (Layout nd cs)")
    case True
    then show ?thesis
      using assms d l p
      by (simp add: add_def add1_def addWithExpansion_def then_do_def Let_def target_call_def
          layout_add_def nth_last_append update_last del: isFull.simps)
  next
    case False
    then show ?thesis
      using assms d l
      by (simp add: add_def add1_def addWithExpansion_def then_do_def Let_def target_call_def
          layout_add_def update_last' del: isFull.simps)
  qed
  with p el show ?thesis by blast
qed

theorem add_last_page_witness:
  "isFull (Layout fresh []) = False \<and>
   (\<exists>c1 c2 nd. add (\<lambda>t. t) (JElement (item (Fin 1))) None empty_ui = Ok c1
     \<and> mode_type c1 = AUTOMATIC_ADDING \<and> mode_template c1 = Some (Layout fresh [])
     \<and> pages c1 \<noteq> [] \<and> last (pages c1) = Layout nd [group_add nd (item (Fin 1))]
     \<and> isFull (Layout nd [group_add nd (item (Fin 1))])
     \<and> held c1 = [Some 1]
     \<and> add (\<lambda>t. t) (JElement (item (Fin 1))) None c1 = Ok c2
     \<and> held c2 = [Some 2, Some 0])"
proof -
  have f: "isFull (Layout fresh []) = False" by (simp add: js_ge_def)
  have "\<exists>c1 nd. add (\<lambda>t. t) (JElement (item (Fin 1))) None empty_ui = Ok c1
     \<and> mode_type c1 = AUTOMATIC_ADDING \<and> mode_template c1 = Some (Layout fresh [])
     \<and> pages c1 = [Layout nd [group_add nd (item (Fin 1))]]"
    by (simp add: add_def add1_def addWithExpansion_def empty_ui_def init_def AUTOMATIC_ADDING_def
        addPage_def then_do_def Let_def deref_def target_call_def layout_add_def
        setVisible_def js_ge_def del: js_mul.simps)
  then obtain c1 nd where c1: "add (\<lambda>t. t) (JElement (item (Fin 1))) None empty_ui = Ok c1"
     "mode_type c1 = AUTOMATIC_ADDING" "mode_template c1 = Some (Layout fresh [])"
     "pages c1 = [Layout nd [group_add nd (item (Fin 1))]]"
    by blast
  let ?cs = "[group_add nd (item (Fin 1))]"
  have ne: "pages c1 \<noteq> []" and l: "last (pages c1) = Layout nd ?cs" using c1(4) by simp_all
  have full: "isFull (Layout nd ?cs)" by (simp add: item_def group_add_def js_ge_def)
  from add_last_page[OF c1(2,3) ne l, of "\<lambda>t. t" "item (Fin 1)"] full
  obtain p' where p: "elements p' = elements (Layout fresh [])"
    "add (\<lambda>t. t) (JElement (item (Fin 1))) None c1 =
       Ok (c1\<lparr>pages := butlast (pages c1) @ [Layout nd (?cs @ [group_add nd (item (Fin 1))])] @ [p']\<rparr>)"
    by (auto simp del: isFull.simps)
  have h1: "held c1 = [Some 1]" using c1(4) by (simp add: held_def)
  have h2: "held (c1\<lparr>pages := butlast (pages c1) @ [Layout nd (?cs @ [group_add nd (item (Fin 1))])] @ [p']\<rparr>)
            = [Some 2, Some 0]"
    using c1(4) p(1) by (simp add: held_def)
  from f c1 ne l full h1 p(2) h2 show ?thesis by blast
qed

subsection \<open>Turning pages\<close>

text \<open>
  C3 as amended, for pages that are distinct objects: the entries of \<open>pages\<close> are objects of
  their own, and the page passed to \<^verbatim>\<open>addPage\<close> is none of them. The first page added becomes the
  current page and is visible; it is the page passed, as \<^verbatim>\<open>addPage\<close> leaves a page. In a state
  where \<open>_pageId\<close> names the current page and that page alone is visible (\<open>one_visible\<close>): a page
  added later is appended as it was passed, hidden, and leaves the pages before it, \<open>_pageId\<close>
  and the current page alone; \<^verbatim>\<open>nextPage\<close> hides page \<open>i\<close> and shows page \<open>(i + 1) mod n\<close>,
  \<^verbatim>\<open>prevPage\<close> hides page \<open>i\<close> and shows page \<open>(i - 1) mod n\<close>; each leaves a state of the same
  kind with exactly one visible page, and so does every sequence of the two; \<^verbatim>\<open>nextPage\<close> then
  \<^verbatim>\<open>prevPage\<close>, and \<^verbatim>\<open>prevPage\<close> then \<^verbatim>\<open>nextPage\<close>, give back the state they started from.
\<close>

theorem page_turning:
  "(pages c0 = [] \<longrightarrow>
      (\<exists>c'. addPage (JElement p) d c0 = Ok c' \<and> pages c' = [as_page d c0 True p]
         \<and> one_visible c' \<and> currPage c' = Some 0
         \<and> length (pages c') = 1 \<and> visible (node_of (pages c' ! 0))))
   \<and> (one_visible c \<longrightarrow>
      (\<exists>i c1 c2 c3 c4. pageId c = Some (int i) \<and> count_visible c = 1
         \<and> nextPage c = Ok c1 \<and> c1 = flip i ((i + 1) mod length (pages c)) c
         \<and> one_visible c1 \<and> count_visible c1 = 1 \<and> prevPage c1 = Ok c
         \<and> prevPage c = Ok c2 \<and> c2 = flip i ((i + length (pages c) - 1) mod length (pages c)) c
         \<and> one_visible c2 \<and> count_visible c2 = 1 \<and> nextPage c2 = Ok c
         \<and> turn ops c = Ok c3 \<and> one_visible c3 \<and> count_visible c3 = 1
         \<and> addPage (JElement p) d c = Ok c4 \<and> c4 = c\<lparr>pages := pages c @ [as_page d c False p]\<rparr>
         \<and> one_visible c4 \<and> count_visible c4 = 1 \<and> currPage c4 = currPage c
         \<and> \<not> visible (node_of (last (pages c4)))))"
proof (intro conjI impI)
  assume e: "pages c0 = []"
  let ?c = "c0\<lparr>pages := [as_page d c0 True p], pageId := Some 0, currPage := Some 0\<rparr>"
  have "addPage (JElement p) d c0 = Ok ?c" using e by (simp add: addPage_as_page)
  moreover have "one_visible ?c" by (simp add: one_visible_def visibility_def)
  ultimately show "\<exists>c'. addPage (JElement p) d c0 = Ok c' \<and> pages c' = [as_page d c0 True p]
         \<and> one_visible c' \<and> currPage c' = Some 0
         \<and> length (pages c') = 1 \<and> visible (node_of (pages c' ! 0))"
    by (intro exI[of _ ?c]) simp
next
  assume ov: "one_visible c"
  from one_visible_pageId[OF ov] obtain i where i: "pageId c = Some (int i)" by blast
  note d = one_visibleD[OF ov i]
  let ?n = "length (pages c)"
  have n: "0 < ?n" using d(1) by (cases "pages c") simp_all
  let ?j = "(i + 1) mod ?n" and ?k = "(i + ?n - 1) mod ?n"
  have j: "?j < ?n" and k: "?k < ?n" using n by simp_all
  let ?c1 = "flip i ?j c" and ?c2 = "flip i ?k c"
  have ov1: "one_visible ?c1" using ov i j by (rule flip_one_visible)
  have ov2: "one_visible ?c2" using ov i k by (rule flip_one_visible)
  have bj: "(?j + ?n - 1) mod ?n = i"
  proof (cases "Suc i = ?n")
    case True
    then show ?thesis using n d(1) by simp
  next
    case False
    then have "Suc i < ?n" using d(1) by simp
    then show ?thesis by simp
  qed
  have bk: "(?k + 1) mod ?n = i"
  proof (cases "i = 0")
    case True
    then show ?thesis using n by (simp add: mod_Suc)
  next
    case False
    then have "?k = i - 1" using d(1) by (simp add: mod_if)
    then show ?thesis using False d(1) by simp
  qed
  have back1: "prevPage ?c1 = Ok c"
    using prevPage_flip[OF ov1, of ?j] flip_back[OF ov i j] bj by simp
  have back2: "nextPage ?c2 = Ok c"
    using nextPage_flip[OF ov2, of ?k] flip_back[OF ov i k] bk by simp
  from turn_one_visible[OF ov, of ops] obtain c3 where
    c3: "turn ops c = Ok c3" "one_visible c3" by blast
  let ?c4 = "c\<lparr>pages := pages c @ [as_page d c False p]\<rparr>"
  have ne: "pages c \<noteq> []" using n by simp
  have a4: "addPage (JElement p) d c = Ok ?c4" using ne by (simp add: addPage_as_page)
  from addPage_later_one_visible[OF ov, of p d] a4 have ov4: "one_visible ?c4" by auto
  have c4: "currPage ?c4 = currPage c" "\<not> visible (node_of (last (pages ?c4)))" by simp_all
  show "\<exists>i c1 c2 c3 c4. pageId c = Some (int i) \<and> count_visible c = 1
         \<and> nextPage c = Ok c1 \<and> c1 = flip i ((i + 1) mod length (pages c)) c
         \<and> one_visible c1 \<and> count_visible c1 = 1 \<and> prevPage c1 = Ok c
         \<and> prevPage c = Ok c2 \<and> c2 = flip i ((i + length (pages c) - 1) mod length (pages c)) c
         \<and> one_visible c2 \<and> count_visible c2 = 1 \<and> nextPage c2 = Ok c
         \<and> turn ops c = Ok c3 \<and> one_visible c3 \<and> count_visible c3 = 1
         \<and> addPage (JElement p) d c = Ok c4 \<and> c4 = c\<lparr>pages := pages c @ [as_page d c False p]\<rparr>
         \<and> one_visible c4 \<and> count_visible c4 = 1 \<and> currPage c4 = currPage c
         \<and> \<not> visible (node_of (last (pages c4)))"
    using i ov ov1 ov2 back1 back2 c3 a4 ov4 c4 nextPage_flip[OF ov i] prevPage_flip[OF ov i]
      one_visible_count[OF ov] one_visible_count[OF ov1] one_visible_count[OF ov2]
      one_visible_count[OF c3(2)] one_visible_count[OF ov4]
    by (intro exI[of _ i] exI[of _ ?c1] exI[of _ ?c2] exI[of _ c3] exI[of _ ?c4]) simp
qed

theorem page_turning_witness:
  "pages empty_ui = [] \<and> one_visible two_pages
   \<and> (\<exists>c'. addPage (JElement (Layout fresh [])) None empty_ui = Ok c'
         \<and> pages c' = [as_page None empty_ui True (Layout fresh [])] \<and> one_visible c'
         \<and> currPage c' = Some 0 \<and> visible (node_of (pages c' ! 0)))
   \<and> (\<exists>c1 c3 c4. nextPage two_pages = Ok c1 \<and> pageId c1 = Some 1 \<and> count_visible c1 = 1
         \<and> prevPage c1 = Ok two_pages
         \<and> turn [Next, Next, Prev] two_pages = Ok c3 \<and> count_visible c3 = 1
         \<and> addPage (JElement (item (Fin 1))) None two_pages = Ok c4
         \<and> pages c4 = pages two_pages @ [as_page None two_pages False (item (Fin 1))]
         \<and> count_visible c4 = 1 \<and> currPage c4 = Some 0)"
proof -
  have e: "pages empty_ui = []" by (simp add: empty_ui_def init_def)
  have t: "one_visible two_pages"
    by (simp add: two_pages_def one_visible_def visibility_def fresh_def upt_rec)
  have l: "length (pages two_pages) = 2" by (simp add: two_pages_def)
  have i: "pageId two_pages = Some (int 0)" by (simp add: two_pages_def)
  have cp: "currPage two_pages = Some 0" by (simp add: two_pages_def)
  from page_turning[of empty_ui "Layout fresh []" None two_pages "[Next, Next, Prev]"] e
  obtain c' where
    a: "addPage (JElement (Layout fresh [])) None empty_ui = Ok c'"
       "pages c' = [as_page None empty_ui True (Layout fresh [])]" "one_visible c'"
       "currPage c' = Some 0" "visible (node_of (pages c' ! 0))"
    by blast
  from page_turning[of empty_ui "item (Fin 1)" None two_pages "[Next, Next, Prev]"] t
  obtain i' c1 c2 c3 c4 where
    b: "pageId two_pages = Some (int i')" "nextPage two_pages = Ok c1"
       "c1 = flip i' ((i' + 1) mod length (pages two_pages)) two_pages" "count_visible c1 = 1"
       "prevPage c1 = Ok two_pages" "turn [Next, Next, Prev] two_pages = Ok c3" "count_visible c3 = 1"
    and f: "addPage (JElement (item (Fin 1))) None two_pages = Ok c4"
       "c4 = two_pages\<lparr>pages := pages two_pages @ [as_page None two_pages False (item (Fin 1))]\<rparr>"
       "count_visible c4 = 1" "currPage c4 = currPage two_pages"
    by blast
  from b(1) i have "i' = 0" by simp
  with b(3) l have "pageId c1 = Some 1" by simp
  moreover from f(2) have "pages c4 = pages two_pages @ [as_page None two_pages False (item (Fin 1))]"
    by simp
  ultimately show ?thesis using e t a b f cp by auto
qed

text \<open>
  C3 as stated fails when a page is added twice: \<^verbatim>\<open>ui.addPage( ui.pages[ 0 ] )\<close> on a controller
  whose one page is current and visible hides that page, the one object both entries of
  \<open>pages\<close> then are. The controller has two pages and none of them is visible.
\<close>

theorem page_turning_counterexample:
  "addPage (JElement (Layout fresh [])) None empty_ui = Ok first_ui
   \<and> one_visible first_ui
   \<and> addPage_again 0 None first_ui = Ok twice_ui
   \<and> length (pages twice_ui) = 2
   \<and> visibility twice_ui = [False, False]
   \<and> count_visible twice_ui = 0
   \<and> turn [] twice_ui = Ok twice_ui"
proof -
  have e: "pages empty_ui = []" by (simp add: empty_ui_def init_def)
  have 1: "addPage (JElement (Layout fresh [])) None empty_ui = Ok first_ui"
    using e by (simp add: addPage_as_page first_ui_def)
  have 2: "one_visible first_ui"
    by (simp add: first_ui_def one_visible_def visibility_def)
  have w: "page_width None first_ui = page_width None empty_ui"
    "page_height None first_ui = page_height None empty_ui" "pageGroup first_ui = pageGroup empty_ui"
    by (simp_all add: first_ui_def)
  have "as_page None first_ui False (as_page None empty_ui True (Layout fresh []))
        = as_page None empty_ui False (Layout fresh [])"
    unfolding as_page_def w by simp
  then have 3: "addPage_again 0 None first_ui = Ok twice_ui"
    by (simp add: addPage_again_as_page first_ui_def twice_ui_def)
  have 4: "length (pages twice_ui) = 2" "visibility twice_ui = [False, False]" "count_visible twice_ui = 0"
    by (simp_all add: twice_ui_def visibility_def count_visible_def)
  from 1 2 3 4 show ?thesis by simp
qed

subsection \<open>Fullness\<close>

text \<open>
  C4 as amended. \<^verbatim>\<open>isFull()\<close> is true if and only if the running sum of the direct children's
  declared heights, added in insertion order in double arithmetic from \<open>0.0\<close>, is at least
  \<open>1.0\<close>. It depends on nothing but that sequence of heights. When the heights are
  non-negative multiples of one power of two with a total that fits 53 bits, no addition
  rounds: \<^verbatim>\<open>isFull()\<close> then is true if and only if the exact sum is at least 1, and is the same
  for every permutation of the children.
\<close>

theorem isFull_running_sum:
  "isFull (Layout nd cs) = js_ge (foldl js_add (Fin 0) (heights cs)) (Fin 1)
   \<and> (heights cs' = heights cs \<longrightarrow> isFull (Layout nd' cs') = isFull (Layout nd cs))
   \<and> (exact_heights k (heights cs) \<longrightarrow>
        isFull (Layout nd cs) = (1 \<le> sum_list (map num_value (heights cs)))
        \<and> (mset (heights cs') = mset (heights cs) \<longrightarrow> isFull (Layout nd' cs') = isFull (Layout nd cs)))"
proof (intro conjI impI)
  show "isFull (Layout nd cs) = js_ge (foldl js_add (Fin 0) (heights cs)) (Fin 1)"
    by (simp add: heights_def)
  show "isFull (Layout nd' cs') = isFull (Layout nd cs)" if "heights cs' = heights cs"
    using that by (simp add: heights_def)
  show "isFull (Layout nd cs) = (1 \<le> sum_list (map num_value (heights cs)))"
    if "exact_heights k (heights cs)"
    using exact_heights_sum[OF that] by (simp add: heights_def js_ge_def)
  show "isFull (Layout nd' cs') = isFull (Layout nd cs)"
    if e: "exact_heights k (heights cs)" and m: "mset (heights cs') = mset (heights cs)"
    using exact_heights_sum[OF e] exact_heights_sum[OF exact_heights_mset(1)[OF e m]]
      exact_heights_mset(2)[OF e m]
    by (simp add: heights_def js_ge_def)
qed

theorem isFull_running_sum_witness:
  "heights [item (Fin (1 / 4)), Layout (fresh\<lparr>style := (style fresh)\<lparr>s_height := Fin (3 / 4)\<rparr>\<rparr>) [item (Fin 1)]]
     = heights [item (Fin (1 / 4)), item (Fin (3 / 4))]
   \<and> exact_heights (- 2) (heights [item (Fin (1 / 4)), item (Fin (3 / 4))])
   \<and> mset (heights [item (Fin (3 / 4)), item (Fin (1 / 4))]) = mset (heights [item (Fin (1 / 4)), item (Fin (3 / 4))])
   \<and> isFull (Layout fresh [item (Fin (1 / 4)), item (Fin (3 / 4))])
   \<and> isFull (Layout fresh [item (Fin (3 / 4)), item (Fin (1 / 4))])
   \<and> isFull (Layout fresh [item (Fin (1 / 4)), Layout (fresh\<lparr>style := (style fresh)\<lparr>s_height := Fin (3 / 4)\<rparr>\<rparr>) [item (Fin 1)]])"
proof -
  let ?cs = "[item (Fin (1 / 4)), item (Fin (3 / 4))]"
  let ?cs1 = "[item (Fin (3 / 4)), item (Fin (1 / 4))]"
  let ?cs2 = "[item (Fin (1 / 4)), Layout (fresh\<lparr>style := (style fresh)\<lparr>s_height := Fin (3 / 4)\<rparr>\<rparr>) [item (Fin 1)]]"
  have h: "heights ?cs2 = heights ?cs" by (simp add: heights_def item_def)
  have e: "exact_heights (- 2) (heights ?cs)" by (simp add: exact_heights_def heights_def item_def)
  have m: "mset (heights ?cs1) = mset (heights ?cs)" by (simp add: heights_def item_def)
  have s: "(1::rat) \<le> sum_list (map num_value (heights ?cs))" by (simp add: heights_def item_def)
  from isFull_running_sum[of fresh ?cs ?cs2 fresh "- 2"] h e s
  have 1: "isFull (Layout fresh ?cs)" "isFull (Layout fresh ?cs2)" by blast+
  from isFull_running_sum[of fresh ?cs ?cs1 fresh "- 2"] e m 1(1)
  have 2: "isFull (Layout fresh ?cs1)" by blast
  from h e m 1 2 show ?thesis by blast
qed

text \<open>
  C4 as stated fails on the heights \<open>0.7\<close>, \<open>0.2\<close>, \<open>0.1\<close>: in this order the running sum is
  \<open>0.9999999999999999\<close> and \<^verbatim>\<open>isFull()\<close> is false; in the order \<open>0.1\<close>, \<open>0.2\<close>, \<open>0.7\<close> the
  running sum is \<open>1.0\<close> and \<^verbatim>\<open>isFull()\<close> is true, while the exact sum of the three heights is
  below 1.
\<close>

theorem isFull_permutation_counterexample:
  "mset (heights [item (js_lit (7 / 10)), item (js_lit (1 / 5)), item (js_lit (1 / 10))])
     = mset (heights [item (js_lit (1 / 10)), item (js_lit (1 / 5)), item (js_lit (7 / 10))])
   \<and> isFull (Layout fresh [item (js_lit (7 / 10)), item (js_lit (1 / 5)), item (js_lit (1 / 10))]) = False
   \<and> isFull (Layout fresh [item (js_lit (1 / 10)), item (js_lit (1 / 5)), item (js_lit (7 / 10))]) = True
   \<and> sum_list (map num_value (heights [item (js_lit (1 / 10)), item (js_lit (1 / 5)), item (js_lit (7 / 10))])) < 1"
  by (simp add: heights_def item_def js_ge_def lit_7_10 lit_1_5 lit_1_10 sum_07 sum_07_02 sum_07_02_01
      sum_01 sum_01_02 sum_01_02_07 del: js_add.simps)

subsection \<open>Intersection\<close>

text \<open>
  C5. \<^verbatim>\<open>_intersect\<close> of a layout. On a ray that misses the background the answer is
  \<^verbatim>\<open>false\<close>, the hover-exit callback (when set) has fired, and \<^verbatim>\<open>forceExit\<close> has run: the tree
  is the one it was, every element of it in its place with the fields it had, but for
  \<open>hover\<close>, which is \<^verbatim>\<open>false\<close> on the layout and on every descendant. On a ray that hits the
  background the answer is \<^verbatim>\<open>true\<close> whatever the children answer; the children are tested in
  insertion order up to and with the first one hit, and the ones after it are left as they
  were.
\<close>

theorem intersect_layout:
  "intersect hit vi r pressed (Layout nd cs) =
     (if hit r nd
      then (True,
            Layout (nd\<lparr>hover := True\<rparr>)
              (map (\<lambda>c. fst (snd (intersect hit vi r pressed c))) (take (tested hit vi r pressed cs) cs)
                 @ drop (tested hit vi r pressed cs) cs),
            (if onHoverEnter nd then [HoverEnter (group_id nd)] else [])
              @ concat (map (\<lambda>c. snd (snd (intersect hit vi r pressed c)))
                          (take (tested hit vi r pressed cs) cs)))
      else (False,
            forceExit (Layout (nd\<lparr>hover := False\<rparr>) cs),
            if onHoverExit nd then [HoverExit (group_id nd)] else []))
   \<and> list_all (\<lambda>d. \<not> hover (node_of d)) (descendants (forceExit (Layout (nd\<lparr>hover := False\<rparr>) cs)))
   \<and> (\<not> hit r nd \<longrightarrow>
        (\<forall>p. at_path p (fst (snd (intersect hit vi r pressed (Layout nd cs))))
               = map_option unhovered (at_path p (Layout nd cs))))"
proof -
  have 1: "intersect hit vi r pressed (Layout nd cs) =
     (if hit r nd
      then (True,
            Layout (nd\<lparr>hover := True\<rparr>)
              (map (\<lambda>c. fst (snd (intersect hit vi r pressed c))) (take (tested hit vi r pressed cs) cs)
                 @ drop (tested hit vi r pressed cs) cs),
            (if onHoverEnter nd then [HoverEnter (group_id nd)] else [])
              @ concat (map (\<lambda>c. snd (snd (intersect hit vi r pressed c)))
                          (take (tested hit vi r pressed cs) cs)))
      else (False,
            forceExit (Layout (nd\<lparr>hover := False\<rparr>) cs),
            if onHoverExit nd then [HoverExit (group_id nd)] else []))"
    by (simp add: checkHover_def onHoverExitWrapper_def intersect_elements_tested
        del: forceExit.simps)
  have 2: "list_all (\<lambda>d. \<not> hover (node_of d)) (descendants (forceExit (Layout (nd\<lparr>hover := False\<rparr>) cs)))"
    by (rule forceExit_clears)
  have 3: "\<forall>p. at_path p (fst (snd (intersect hit vi r pressed (Layout nd cs))))
               = map_option unhovered (at_path p (Layout nd cs))" if "\<not> hit r nd"
    unfolding 1 using that by (simp only: if_False fst_conv snd_conv at_path_forceExit) simp
  from 1 2 3 show ?thesis by blast
qed

theorem intersect_layout_witness:
  "list_all (\<lambda>d. hover (node_of d)) [View (fresh\<lparr>hover := True\<rparr>), View (fresh\<lparr>hover := True\<rparr>)]
   \<and> intersect (\<lambda>r n. False) (\<lambda>r b n. (True, n, [])) RayInit False hovered
       = (False,
          Layout (fresh\<lparr>onHoverExit := True, group_id := 7\<rparr>) [View fresh, Layout fresh [View fresh]],
          [HoverExit 7])
   \<and> at_path [0] hovered = Some (fresh\<lparr>hover := True\<rparr>, False)
   \<and> at_path [0] (fst (snd (intersect (\<lambda>r n. False) (\<lambda>r b n. (True, n, [])) RayInit False hovered)))
       = Some (fresh, False)
   \<and> at_path [1, 0] (fst (snd (intersect (\<lambda>r n. False) (\<lambda>r b n. (True, n, [])) RayInit False hovered)))
       = Some (fresh, False)
   \<and> at_path [1, 1] (fst (snd (intersect (\<lambda>r n. False) (\<lambda>r b n. (True, n, [])) RayInit False hovered)))
       = None
   \<and> fst (intersect (\<lambda>r n. True) (\<lambda>r b n. (False, n, [])) RayInit False hovered) = True"
proof -
  let ?nd = "fresh\<lparr>hover := True, onHoverExit := True, group_id := 7\<rparr>"
  let ?cs = "[View (fresh\<lparr>hover := True\<rparr>), Layout fresh [View (fresh\<lparr>hover := True\<rparr>)]]"
  let ?miss = "intersect (\<lambda>r n. False) (\<lambda>r b n. (True, n, [])) RayInit False (Layout ?nd ?cs)"
  have h: "hovered = Layout ?nd ?cs" by (simp add: hovered_def)
  have f: "fresh\<lparr>hover := False\<rparr> = fresh" by (simp add: fresh_def)
  note m = intersect_layout[of "\<lambda>r n. False" "\<lambda>r b n. (True, n, [])" RayInit False ?nd ?cs]
  from m have 1: "?miss = (False,
          Layout (fresh\<lparr>onHoverExit := True, group_id := 7\<rparr>) [View fresh, Layout fresh [View fresh]],
          [HoverExit 7])"
    by (simp add: fresh_def del: intersect.simps)
  have a: "at_path [0] (Layout ?nd ?cs) = Some (fresh\<lparr>hover := True\<rparr>, False)"
    "at_path [1, 0] (Layout ?nd ?cs) = Some (fresh\<lparr>hover := True\<rparr>, False)"
    "at_path [1, 1] (Layout ?nd ?cs) = None"
    by (simp_all add: at_path_def)
  from m have p: "at_path p (fst (snd ?miss)) = map_option unhovered (at_path p (Layout ?nd ?cs))" for p
    by blast
  have 2: "at_path [0] (fst (snd ?miss)) = Some (fresh, False)"
    "at_path [1, 0] (fst (snd ?miss)) = Some (fresh, False)"
    "at_path [1, 1] (fst (snd ?miss)) = None"
    unfolding p a by (simp_all add: unhovered_def f)
  have 3: "fst (intersect (\<lambda>r n. True) (\<lambda>r b n. (False, n, [])) RayInit False (Layout ?nd ?cs)) = True"
    using intersect_layout[of "\<lambda>r n. True" "\<lambda>r b n. (False, n, [])" RayInit False ?nd ?cs]
    by (simp del: intersect.simps)
  show ?thesis unfolding h using 1 2 3 a(1) by (simp del: intersect.simps)
qed

subsection \<open>Stacking from the top\<close>




subsection \<open>The arguments of \<^verbatim>\<open>add\<close> on a layout\<close>

text \<open>
  C7. \<^verbatim>\<open>add\<close> of a layout appends the elements it is passed, as one or as several arguments, in
  call order, and attaches the group of each under the layout's group; an argument that is
  not an element throws, after the elements before it have been appended; a call without
  argument or with \<^verbatim>\<open>null\<close> first throws. An array does not get its elements appended: the
  test \<^verbatim>\<open>arguments.length > 0\<close> holds for every call that passed the \<^verbatim>\<open>null\<close> check, so the
  array itself goes to \<^verbatim>\<open>_addItem\<close>, which throws, and the branch for arrays is never reached.
\<close>

theorem layout_add_arguments:
  "layout_add [JArray xs] (Layout nd cs) = Throw Error_layout_add_not_element (Layout nd cs)
   \<and> layout_add (map JElement (e # es)) (Layout nd cs) = Ok (Layout nd (cs @ map (group_add nd) (e # es)))
   \<and> group_parent (node_of (group_add nd e)) = Some (group_id nd)
   \<and> layout_add (map JElement (e # es) @ JOther # rest) (Layout nd cs)
       = Throw Error_layout_add_not_element (Layout nd (cs @ map (group_add nd) (e # es)))
   \<and> layout_add [] (Layout nd cs) = Throw Error_layout_add_null (Layout nd cs)
   \<and> layout_add (JNull # rest) (Layout nd cs) = Throw Error_layout_add_null (Layout nd cs)
   \<and> layout_add (JUndefined # rest) (Layout nd cs) = Throw Error_layout_add_null (Layout nd cs)"
proof -
  have 1: "layout_add (map JElement (e # es)) (Layout nd cs) = Ok (Layout nd (cs @ map (group_add nd) (e # es)))"
    using addItems_elements[of "e # es" nd cs] by (simp add: layout_add_def del: addItems.simps)
  have "addItems (map JElement (e # es) @ JOther # rest) (Layout nd cs)
        = Throw Error_layout_add_not_element (Layout nd (cs @ map (group_add nd) (e # es)))"
    unfolding addItems_append addItems_elements by simp
  then have 2: "layout_add (map JElement (e # es) @ JOther # rest) (Layout nd cs)
       = Throw Error_layout_add_not_element (Layout nd (cs @ map (group_add nd) (e # es)))"
    by (simp add: layout_add_def del: addItems.simps)
  have 3: "layout_add [JArray xs] (Layout nd cs) = Throw Error_layout_add_not_element (Layout nd cs)"
    and 4: "group_parent (node_of (group_add nd e)) = Some (group_id nd)"
    and 5: "layout_add [] (Layout nd cs) = Throw Error_layout_add_null (Layout nd cs)"
    and 6: "layout_add (JNull # rest) (Layout nd cs) = Throw Error_layout_add_null (Layout nd cs)"
    and 7: "layout_add (JUndefined # rest) (Layout nd cs) = Throw Error_layout_add_null (Layout nd cs)"
    by (simp_all add: layout_add_def group_add_def)
  from 1 2 3 4 5 6 7 show ?thesis by blast
qed

subsection \<open>Horizontal placement\<close>

text \<open>
  C8 as amended, for a vertical layout without horizontal padding. After \<^verbatim>\<open>refresh\<close> the
  horizontal offset of each child is decided by the layout's resolved width and by the
  child's own refreshed \<open>style.position\<close>, width and half width: nothing of the vertical pass
  enters. \<open>right\<close> gives the layout's width less the child's width, \<open>center\<close> gives half the
  layout's width less the child's half width, and for any other position \<^verbatim>\<open>refresh\<close> writes no
  offset: the child has the offset its own inherited \<^verbatim>\<open>refresh\<close> leaves it with, which is the
  offset it had before the call when that \<^verbatim>\<open>refresh\<close> leaves offsets alone.
\<close>

theorem refresh_horizontal:
  assumes "b_left (d_padding (dimensions (rf maxEltWidth maxEltHeight nd))) = Fin 0"
    and "b_right (d_padding (dimensions (rf maxEltWidth maxEltHeight nd))) = Fin 0"
    and "is_number (d_width (dimensions (rf maxEltWidth maxEltHeight nd)))"
  shows "map (\<lambda>e. pos_x (node_of e)) (children (fst (refresh rf maxEltWidth maxEltHeight (Layout nd cs))))
         = map (\<lambda>c. horizontal_offset (d_width (dimensions (rf maxEltWidth maxEltHeight nd)))
                       (pos_x (rf (d_width (dimensions (rf maxEltWidth maxEltHeight nd)))
                                  (inner_height (rf maxEltWidth maxEltHeight nd)) (node_of c)))
                       (fst (refresh rf (d_width (dimensions (rf maxEltWidth maxEltHeight nd)))
                                        (inner_height (rf maxEltWidth maxEltHeight nd)) c))) cs
       \<and> ((\<forall>w h n. pos_x (rf w h n) = pos_x n) \<longrightarrow>
            map (\<lambda>e. pos_x (node_of e)) (children (fst (refresh rf maxEltWidth maxEltHeight (Layout nd cs))))
            = map (\<lambda>c. horizontal_offset (d_width (dimensions (rf maxEltWidth maxEltHeight nd)))
                          (pos_x (node_of c))
                          (fst (refresh rf (d_width (dimensions (rf maxEltWidth maxEltHeight nd)))
                                           (inner_height (rf maxEltWidth maxEltHeight nd)) c))) cs)"
proof -
  let ?nd = "rf maxEltWidth maxEltHeight nd"
  let ?W = "d_width (dimensions ?nd)" and ?H = "inner_height ?nd"
  have w: "inner_width ?nd = ?W" using assms by (rule inner_width_no_padding)
  obtain cs' ws where r: "refresh_elements rf ?W ?H (d_height (dimensions ?nd))
      (b_top (d_padding (dimensions ?nd)), b_bottom (d_padding (dimensions ?nd))) cs = (cs', ws)"
    by (cases "refresh_elements rf ?W ?H (d_height (dimensions ?nd))
      (b_top (d_padding (dimensions ?nd)), b_bottom (d_padding (dimensions ?nd))) cs")
  have "refresh rf maxEltWidth maxEltHeight (Layout nd cs) = (Layout ?nd cs', ws)"
    using r w by (simp add: Let_def inner_width_def inner_height_def)
  then have c: "children (fst (refresh rf maxEltWidth maxEltHeight (Layout nd cs))) = cs'"
    by simp
  have 1: "map (\<lambda>e. pos_x (node_of e)) cs'
           = map (\<lambda>c. horizontal_offset ?W (pos_x (rf ?W ?H (node_of c))) (fst (refresh rf ?W ?H c))) cs"
    using refresh_elements_pos_x[of rf ?W ?H "d_height (dimensions ?nd)"
        "(b_top (d_padding (dimensions ?nd)), b_bottom (d_padding (dimensions ?nd)))" cs] r
    by simp
  have 2: "map (\<lambda>e. pos_x (node_of e)) cs'
           = map (\<lambda>c. horizontal_offset ?W (pos_x (node_of c)) (fst (refresh rf ?W ?H c))) cs"
    if "\<forall>w h n. pos_x (rf w h n) = pos_x n"
    unfolding 1 using that by simp
  show ?thesis unfolding c using 1 2 by blast
qed

theorem refresh_horizontal_witness:
  "b_left (d_padding (dimensions fresh)) = Fin 0 \<and> b_right (d_padding (dimensions fresh)) = Fin 0
   \<and> is_number (Fin 1) \<and> (\<forall>w h n. pos_x ((\<lambda>w h n. n) w h n) = pos_x n)
   \<and> map (\<lambda>e. pos_x (node_of e))
        (children (fst (refresh (\<lambda>w h n. n) (Fin 1) (Fin 1)
           (shelf [tile PosRight (Fin 0), tile PosCenter (Fin 0), tile PosLeft (Fin (1 / 8))]))))
       = [Fin (1 / 2), Fin (1 / 4), Fin (1 / 8)]"
proof -
  let ?nd = "fresh\<lparr>dimensions := (dimensions fresh)\<lparr>d_width := Fin 1, d_height := Fin 1\<rparr>\<rparr>"
  let ?cs = "[tile PosRight (Fin 0), tile PosCenter (Fin 0), tile PosLeft (Fin (1 / 8))]"
  have a: "b_left (d_padding (dimensions ((\<lambda>w h n. n) (Fin 1) (Fin 1) ?nd))) = Fin 0"
    "b_right (d_padding (dimensions ((\<lambda>w h n. n) (Fin 1) (Fin 1) ?nd))) = Fin 0"
    "is_number (d_width (dimensions ((\<lambda>w h n. n) (Fin 1) (Fin 1) ?nd)))"
    by (simp_all add: fresh_def zero_box_def is_double_def)
  have b: "b_left (d_padding (dimensions fresh)) = Fin 0" "b_right (d_padding (dimensions fresh)) = Fin 0"
    "is_number (Fin 1)"
    by (simp_all add: fresh_def zero_box_def is_double_def)
  have k: "\<forall>w h n. pos_x ((\<lambda>w h n. n) w h n) = pos_x n" by simp
  from refresh_horizontal[of "\<lambda>w h n. n" "Fin 1" "Fin 1" ?nd ?cs, OF a] k
  have "map (\<lambda>e. pos_x (node_of e)) (children (fst (refresh (\<lambda>w h n. n) (Fin 1) (Fin 1) (Layout ?nd ?cs))))
        = map (\<lambda>c. horizontal_offset (Fin 1) (pos_x (node_of c))
                      (fst (refresh (\<lambda>w h n. n) (Fin 1) (inner_height ?nd) c))) ?cs"
    by (simp del: refresh.simps)
  also have "\<dots> = [Fin (1 / 2), Fin (1 / 4), Fin (1 / 8)]"
    by (simp add: horizontal_offset_def tile_def fresh_def js_sub_def)
  finally show ?thesis using b k by (simp add: shelf_def del: refresh.simps)
qed

text \<open>
  C8 as stated fails on a child that declares no position and is not at 0: a view placed
  \<open>right\<close> in a layout without padding is moved to 1/2 by \<^verbatim>\<open>refresh\<close>; once its
  \<open>style.position\<close> is \<open>left\<close>, the next \<^verbatim>\<open>refresh\<close> writes no offset and the view stays at
  1/2, not at 0.
\<close>

theorem refresh_horizontal_counterexample:
  "children (fst (refresh (\<lambda>w h n. n) (Fin 1) (Fin 1) (shelf [tile PosRight (Fin 0)])))
     = [tile PosRight (Fin (1 / 2))]
   \<and> children (fst (refresh (\<lambda>w h n. n) (Fin 1) (Fin 1) (shelf [tile PosLeft (Fin (1 / 2))])))
     = [tile PosLeft (Fin (1 / 2))]
   \<and> s_position (style (node_of (tile PosLeft (Fin (1 / 2))))) = PosLeft
   \<and> pos_x (node_of (tile PosLeft (Fin (1 / 2)))) = Fin (1 / 2)
   \<and> Fin (1 / 2) \<noteq> Fin 0"
  by (simp add: shelf_def tile_def fresh_def zero_box_def Let_def js_sub_def place_vertical_def
      place_horizontal_def)

subsection \<open>Placement of a page\<close>

text \<open>
  C9. \<^verbatim>\<open>addPage\<close> of an element appends that element to \<open>pages\<close>, changed in these fields and no
  other: its group is attached under the page group; it gets the dimensions passed, or the
  controller's own width and height when the argument is omitted; its group is moved to
  \<open>x = - width / 2\<close> and \<open>y = height / 2\<close>, each the double nearest to the exact value and the
  exact value itself unless the halving underflows; and it is hidden unless it is the first
  page. The pages before it, \<open>_pageId\<close> and the current page stay as they were (the first page
  added becomes the current page). The same holds when the element passed already is page
  \<open>k\<close>: the one object gets these fields and is the last entry as well.
\<close>

theorem addPage_placement:
  "addPage (JElement p) d c =
     Ok (c\<lparr>pages := pages c @ [as_page d c (pages c = []) p],
           pageId := (if pages c = [] then Some 0 else pageId c),
           currPage := (if pages c = [] then Some 0 else currPage c)\<rparr>)
   \<and> (k < length (pages c) \<longrightarrow>
        addPage_again k d c =
          Ok (c\<lparr>pages := (pages c)[k := as_page d c False (pages c ! k)]
                            @ [as_page d c False (pages c ! k)]\<rparr>))
   \<and> elements (as_page d c b p) = elements p
   \<and> group_parent (node_of (as_page d c b p)) = Some (pageGroup c)
   \<and> parentDimensions (node_of (as_page d c b p)) = Some (page_width d c, page_height d c)
   \<and> pos_x (node_of (as_page d c b p)) = js_neg (half (page_width d c))
   \<and> pos_y (node_of (as_page d c b p)) = half (page_height d c)
   \<and> page_width None c = data_width c \<and> page_height None c = data_height c
   \<and> (\<forall>v. page_width d c = Fin v \<and> is_double v \<and> 2 powi (- 1021) \<le> \<bar>v\<bar>
          \<longrightarrow> pos_x (node_of (as_page d c b p)) = Fin (- (v / 2)))
   \<and> (\<forall>v. page_height d c = Fin v \<and> is_double v \<and> 2 powi (- 1021) \<le> \<bar>v\<bar>
          \<longrightarrow> pos_y (node_of (as_page d c b p)) = Fin (v / 2))"
proof -
  have 1: "addPage (JElement p) d c =
     Ok (c\<lparr>pages := pages c @ [as_page d c (pages c = []) p],
           pageId := (if pages c = [] then Some 0 else pageId c),
           currPage := (if pages c = [] then Some 0 else currPage c)\<rparr>)"
    by (rule addPage_as_page)
  have 2: "addPage_again k d c =
          Ok (c\<lparr>pages := (pages c)[k := as_page d c False (pages c ! k)]
                            @ [as_page d c False (pages c ! k)]\<rparr>)" if "k < length (pages c)"
    using that by (rule addPage_again_as_page)
  have 3: "elements (as_page d c b p) = elements p"
    by (cases p) (simp_all add: as_page_def)
  have 4: "group_parent (node_of (as_page d c b p)) = Some (pageGroup c)"
    "parentDimensions (node_of (as_page d c b p)) = Some (page_width d c, page_height d c)"
    and x: "pos_x (node_of (as_page d c b p)) = js_neg (half (page_width d c))"
    and y: "pos_y (node_of (as_page d c b p)) = half (page_height d c)"
    by (simp_all add: as_page_def del: half.simps)
  have 5: "page_width None c = data_width c" "page_height None c = data_height c" by simp_all
  have 6: "\<forall>v. page_width d c = Fin v \<and> is_double v \<and> 2 powi (- 1021) \<le> \<bar>v\<bar>
          \<longrightarrow> pos_x (node_of (as_page d c b p)) = Fin (- (v / 2))"
    unfolding x using half_exact by (auto simp del: half.simps)
  have 7: "\<forall>v. page_height d c = Fin v \<and> is_double v \<and> 2 powi (- 1021) \<le> \<bar>v\<bar>
          \<longrightarrow> pos_y (node_of (as_page d c b p)) = Fin (v / 2)"
    unfolding y using half_exact by (auto simp del: half.simps)
  from 1 2 3 4 x y 5 6 7 show ?thesis by blast
qed

theorem addPage_placement_witness:
  "page_width None empty_ui = Fin (1 / 2) \<and> is_double (1 / 2) \<and> 2 powi (- 1021) \<le> \<bar>1 / 2 :: rat\<bar>
   \<and> page_height None empty_ui = Fin (1 / 4) \<and> is_double (1 / 4) \<and> 2 powi (- 1021) \<le> \<bar>1 / 4 :: rat\<bar>
   \<and> addPage (JElement (Layout fresh [item (Fin 1)])) None empty_ui
       = Ok (empty_ui\<lparr>pages := [as_page None empty_ui True (Layout fresh [item (Fin 1)])],
               pageId := Some 0, currPage := Some 0\<rparr>)
   \<and> elements (as_page None empty_ui True (Layout fresh [item (Fin 1)])) = Some [item (Fin 1)]
   \<and> parentDimensions (node_of (as_page None empty_ui True (Layout fresh [item (Fin 1)])))
       = Some (Fin (1 / 2), Fin (1 / 4))
   \<and> pos_x (node_of (as_page None empty_ui True (Layout fresh [item (Fin 1)]))) = Fin (- (1 / 4))
   \<and> pos_y (node_of (as_page None empty_ui True (Layout fresh [item (Fin 1)]))) = Fin (1 / 8)
   \<and> (0::nat) < length (pages first_ui)
   \<and> addPage_again 0 None first_ui
       = Ok (first_ui\<lparr>pages := [as_page None first_ui False (pages first_ui ! 0),
                                 as_page None first_ui False (pages first_ui ! 0)]\<rparr>)
   \<and> currPage first_ui = Some 0"
proof -
  let ?p = "Layout fresh [item (Fin 1)]"
  have w: "page_width None empty_ui = Fin (1 / 2)" and h: "page_height None empty_ui = Fin (1 / 4)"
    and e: "pages empty_ui = []"
    by (simp_all add: empty_ui_def init_def)
  have dw: "is_double (1 / 2)" and dh: "is_double (1 / 4)" by (simp_all add: is_double_def)
  have bw: "2 powi (- 1021) \<le> \<bar>1 / 2 :: rat\<bar>" and bh: "2 powi (- 1021) \<le> \<bar>1 / 4 :: rat\<bar>"
    by simp_all
  note t = addPage_placement[of ?p None empty_ui 0 True]
  from t have a: "addPage (JElement ?p) None empty_ui
       = Ok (empty_ui\<lparr>pages := pages empty_ui @ [as_page None empty_ui (pages empty_ui = []) ?p],
               pageId := (if pages empty_ui = [] then Some 0 else pageId empty_ui),
               currPage := (if pages empty_ui = [] then Some 0 else currPage empty_ui)\<rparr>)"
    by blast
  from t have el: "elements (as_page None empty_ui True ?p) = elements ?p"
    and pd: "parentDimensions (node_of (as_page None empty_ui True ?p))
               = Some (page_width None empty_ui, page_height None empty_ui)"
    and fx: "\<forall>v. page_width None empty_ui = Fin v \<and> is_double v \<and> 2 powi (- 1021) \<le> \<bar>v\<bar>
          \<longrightarrow> pos_x (node_of (as_page None empty_ui True ?p)) = Fin (- (v / 2))"
    and fy: "\<forall>v. page_height None empty_ui = Fin v \<and> is_double v \<and> 2 powi (- 1021) \<le> \<bar>v\<bar>
          \<longrightarrow> pos_y (node_of (as_page None empty_ui True ?p)) = Fin (v / 2)"
    by blast+
  from fx w dw bw have x: "pos_x (node_of (as_page None empty_ui True ?p)) = Fin (- ((1 / 2) / 2))" by blast
  from fy h dh bh have y: "pos_y (node_of (as_page None empty_ui True ?p)) = Fin ((1 / 4) / 2)" by blast
  have l: "(0::nat) < length (pages first_ui)" and cp: "currPage first_ui = Some 0"
    by (simp_all add: first_ui_def)
  from addPage_placement[of ?p None first_ui 0 True] l
  have g: "addPage_again 0 None first_ui
       = Ok (first_ui\<lparr>pages := (pages first_ui)[0 := as_page None first_ui False (pages first_ui ! 0)]
                            @ [as_page None first_ui False (pages first_ui ! 0)]\<rparr>)"
    by blast
  have g': "(pages first_ui)[0 := as_page None first_ui False (pages first_ui ! 0)]
              @ [as_page None first_ui False (pages first_ui ! 0)]
            = [as_page None first_ui False (pages first_ui ! 0), as_page None first_ui False (pages first_ui ! 0)]"
    by (simp add: first_ui_def)
  show ?thesis
    using a el pd x y w h e dw dh bw bh l cp g unfolding g' by simp
qed

subsection \<open>Updating without an input\<close>

text \<open>
  C10. An enabled controller in tracked-device mode with no input object: \<^verbatim>\<open>update()\<close> returns
  \<^verbatim>\<open>null\<close> and leaves the whole state as it was (no ray is built, no page is intersected).
  Tracked-device mode is the mode of a new controller and the mode \<^verbatim>\<open>disableMouse()\<close> sets.
\<close>

theorem update_without_input:
  assumes "enabled c" and "inputObject c = None"
  shows "(update_fn c = UpdateVR \<longrightarrow> update hit vi c = Ok (c, None))
       \<and> update hit vi (disableMouse c) = Ok (disableMouse c, None)
       \<and> update hit vi (init w h ty tmpl pg) = Ok (init w h ty tmpl pg, None)"
  using assms by (simp add: update_def updateVR_def disableMouse_def init_def)

theorem update_without_input_witness:
  "enabled empty_ui \<and> inputObject empty_ui = None \<and> update_fn empty_ui = UpdateVR
   \<and> update (\<lambda>r n. True) (\<lambda>r b n. (True, n, [])) empty_ui = Ok (empty_ui, None)
   \<and> update (\<lambda>r n. True) (\<lambda>r b n. (True, n, [])) (disableMouse empty_ui) = Ok (disableMouse empty_ui, None)"
proof -
  have e: "enabled empty_ui" and i: "inputObject empty_ui = None" and u: "update_fn empty_ui = UpdateVR"
    by (simp_all add: empty_ui_def init_def)
  from update_without_input[OF e i, of "\<lambda>r n. True" "\<lambda>r b n. (True, n, [])"] e i u
  show ?thesis by simp
qed

end
